theory Spec2Isabelle
  imports Complex_Main "HOL-Library.Log_Nat" "HOL-Library.Product_Lexorder"
begin

section \<open>Python values\<close>

text \<open>
  Both servers handle values produced by \<^verbatim>\<open>json.loads\<close>: \<^verbatim>\<open>None\<close>, booleans, integers of
  any size, floats, strings, lists and dicts with string keys. A dict is an association
  list in insertion order.
\<close>

subsection \<open>Floats\<close>

text \<open>
  A Python \<^verbatim>\<open>float\<close> is an IEEE 754 binary64 number: a finite value (a rational that has
  the form \<open>m * 2^x\<close> with \<open>\<bar>m\<bar> < 2^53\<close> and \<open>-1074 \<le> x\<close>, below \<open>2^1024\<close> in magnitude;
  \<open>Finite 0\<close> is \<^verbatim>\<open>0.0\<close>), the negative zero \<^verbatim>\<open>-0.0\<close>, an infinity, or NaN. \<^verbatim>\<open>json.loads\<close>
  yields all of them (it reads \<^verbatim>\<open>NaN\<close>, \<^verbatim>\<open>Infinity\<close> and \<^verbatim>\<open>-Infinity\<close>).
\<close>

datatype pyfloat = Finite rat | NegZero | PosInf | NegInf | NaN

definition pow2 :: "int \<Rightarrow> rat" where
  "pow2 k = (if 0 \<le> k then 2 ^ nat k else 1 / 2 ^ nat (- k))"

text \<open>For \<open>q > 0\<close>, the exponent \<open>e\<close> with \<open>2^e \<le> q < 2^(e+1)\<close>.\<close>

definition floor_log2 :: "rat \<Rightarrow> int" where
  "floor_log2 q =
     (let k = bitlen (fst (quotient_of q)) - bitlen (snd (quotient_of q))
      in if pow2 k \<le> q then k else k - 1)"

definition round_half_even :: "rat \<Rightarrow> int" where
  "round_half_even q =
     (let n = \<lfloor>q\<rfloor>; r = q - of_int n
      in if r < 1 / 2 then n else if 1 / 2 < r then n + 1 else if even n then n else n + 1)"

text \<open>
  Rounding of an exact result to the nearest float, ties to the even significand: the
  significand has 53 bits, or fewer below \<open>2^(-1022)\<close>, where the floats are the multiples
  of \<open>2^(-1074)\<close>. A result that rounds to \<open>2^1024\<close> or beyond is an infinity, and one that
  rounds to nothing is a zero of its sign.
\<close>

definition to_double :: "rat \<Rightarrow> pyfloat" where
  "to_double q =
     (if q = 0 then Finite 0
      else
        let e = floor_log2 \<bar>q\<bar>;
            x = max (e - 52) (- 1074);
            m = round_half_even (\<bar>q\<bar> / pow2 x)
        in if 1024 < x + bitlen m then (if 0 < q then PosInf else NegInf)
           else if m = 0 then (if 0 < q then Finite 0 else NegZero)
           else Finite (if 0 < q then of_int m * pow2 x else - (of_int m * pow2 x)))"

fun negative :: "pyfloat \<Rightarrow> bool" where
  "negative (Finite r) = (r < 0)"
| "negative NegZero = True"
| "negative PosInf = False"
| "negative NegInf = True"
| "negative NaN = False"

fun finite_value :: "pyfloat \<Rightarrow> rat option" where
  "finite_value (Finite r) = Some r"
| "finite_value NegZero = Some 0"
| "finite_value _ = None"

definition signed_zero :: "bool \<Rightarrow> pyfloat" where
  "signed_zero neg = (if neg then NegZero else Finite 0)"

definition signed_inf :: "bool \<Rightarrow> pyfloat" where
  "signed_inf neg = (if neg then NegInf else PosInf)"

text \<open>
  \<^verbatim>\<open>a - b\<close> on floats: the rounded difference; a difference that is exactly zero is \<^verbatim>\<open>0.0\<close>,
  except that \<^verbatim>\<open>-0.0 - 0.0\<close> is \<^verbatim>\<open>-0.0\<close>. No float subtraction raises.
\<close>

definition sub_float :: "pyfloat \<Rightarrow> pyfloat \<Rightarrow> pyfloat" where
  "sub_float a b =
     (case (finite_value a, finite_value b) of
        (Some x, Some y) \<Rightarrow>
          if x = y then (if a = NegZero \<and> b \<noteq> NegZero then NegZero else Finite 0)
          else to_double (x - y)
      | (Some x, None) \<Rightarrow> (case b of PosInf \<Rightarrow> NegInf | NegInf \<Rightarrow> PosInf | _ \<Rightarrow> NaN)
      | (None, Some y) \<Rightarrow> a
      | (None, None) \<Rightarrow>
          if a = PosInf \<and> b = NegInf then PosInf
          else if a = NegInf \<and> b = PosInf then NegInf
          else NaN)"

text \<open>\<^verbatim>\<open>a / b\<close> on floats, for a divisor that is not a zero.\<close>

definition div_float :: "pyfloat \<Rightarrow> pyfloat \<Rightarrow> pyfloat" where
  "div_float a b =
     (case (finite_value a, finite_value b) of
        (Some x, Some y) \<Rightarrow>
          if x = 0 then signed_zero (negative a \<noteq> negative b) else to_double (x / y)
      | (Some x, None) \<Rightarrow> if b = NaN then NaN else signed_zero (negative a \<noteq> negative b)
      | (None, Some y) \<Rightarrow> if a = NaN then NaN else signed_inf (negative a \<noteq> negative b)
      | (None, None) \<Rightarrow> NaN)"

subsection \<open>JSON values\<close>

datatype json =
    JNull
  | JBool bool
  | JInt int
  | JFloat pyfloat
  | JStr string
  | JArr "json list"
  | JObj "(string \<times> json) list"

type_synonym dict = "(string \<times> json) list"

datatype error =
    TypeError | AttributeError | ZeroDivisionError | OverflowError | ValueError | RecursionError

text \<open>Sequencing of statements that may raise: the first exception ends the block.\<close>

definition and_then :: "error + 'a \<Rightarrow> ('a \<Rightarrow> error + 'b) \<Rightarrow> error + 'b" where
  "and_then r f = (case r of Inl e \<Rightarrow> Inl e | Inr x \<Rightarrow> f x)"

text \<open>\<^verbatim>\<open>d.get(k, default)\<close>, \<^verbatim>\<open>k in d\<close> and \<^verbatim>\<open>d[k] = v\<close> on a dict.\<close>

definition dict_get :: "dict \<Rightarrow> string \<Rightarrow> json \<Rightarrow> json" where
  "dict_get d k dflt = (case map_of d k of None \<Rightarrow> dflt | Some v \<Rightarrow> v)"

definition dict_contains :: "dict \<Rightarrow> string \<Rightarrow> bool" where
  "dict_contains d k = (map_of d k \<noteq> None)"

fun dict_set :: "(string \<times> 'v) list \<Rightarrow> string \<Rightarrow> 'v \<Rightarrow> (string \<times> 'v) list" where
  "dict_set [] k v = [(k, v)]"
| "dict_set ((k', v') # d) k v = (if k' = k then (k, v) # d else (k', v') # dict_set d k v)"

text \<open>
  \<^verbatim>\<open>x.get(k, default)\<close> on a value that need not be a dict: no other JSON value has a
  \<^verbatim>\<open>get\<close> method, so the call raises AttributeError there.
\<close>

definition method_get :: "json \<Rightarrow> string \<Rightarrow> json \<Rightarrow> error + json" where
  "method_get x k dflt = (case x of JObj d \<Rightarrow> Inr (dict_get d k dflt) | _ \<Rightarrow> Inl AttributeError)"

text \<open>
  \<^verbatim>\<open>out[g][k] = v\<close>: the subscription \<^verbatim>\<open>out[g]\<close> yields the stored object and the item
  assignment changes it in place; a value that is no dict refuses the assignment with
  TypeError. The callers make sure that \<^verbatim>\<open>g\<close> is a key.
\<close>

definition set_nested :: "dict \<Rightarrow> string \<Rightarrow> string \<Rightarrow> json \<Rightarrow> error + dict" where
  "set_nested out g k v =
     (case dict_get out g JNull of
        JObj d \<Rightarrow> Inr (dict_set out g (JObj (dict_set d k v)))
      | _ \<Rightarrow> Inl TypeError)"

subsection \<open>Numbers\<close>

text \<open>
  The numeric reading of a value: an \<^verbatim>\<open>int\<close> or a \<^verbatim>\<open>float\<close>; \<^verbatim>\<open>bool\<close> is a subclass of
  \<^verbatim>\<open>int\<close>.
\<close>

datatype number = NInt int | NFloat pyfloat

fun num_of :: "json \<Rightarrow> number option" where
  "num_of (JInt i) = Some (NInt i)"
| "num_of (JBool b) = Some (NInt (if b then 1 else 0))"
| "num_of (JFloat f) = Some (NFloat f)"
| "num_of _ = None"

text \<open>
  The conversion of an \<^verbatim>\<open>int\<close> operand that arithmetic with a \<^verbatim>\<open>float\<close> starts with: the
  nearest float, and OverflowError for an \<^verbatim>\<open>int\<close> beyond the floats.
\<close>

definition float_of_int :: "int \<Rightarrow> error + pyfloat" where
  "float_of_int i =
     (case to_double (of_int i) of
        PosInf \<Rightarrow> Inl OverflowError
      | NegInf \<Rightarrow> Inl OverflowError
      | f \<Rightarrow> Inr f)"

fun as_float :: "number \<Rightarrow> error + pyfloat" where
  "as_float (NInt i) = float_of_int i"
| "as_float (NFloat f) = Inr f"

text \<open>
  \<^verbatim>\<open>a - b\<close>: exact on two \<^verbatim>\<open>int\<close>s, the float difference as soon as one operand is a
  \<^verbatim>\<open>float\<close>, and TypeError on every other JSON value.
\<close>

definition py_sub :: "json \<Rightarrow> json \<Rightarrow> error + json" where
  "py_sub a b =
     (case (num_of a, num_of b) of
        (Some (NInt x), Some (NInt y)) \<Rightarrow> Inr (JInt (x - y))
      | (Some x, Some y) \<Rightarrow>
          and_then (as_float x) (\<lambda>f.
          and_then (as_float y) (\<lambda>g. Inr (JFloat (sub_float f g))))
      | _ \<Rightarrow> Inl TypeError)"

text \<open>
  \<^verbatim>\<open>a / b\<close>: always a \<^verbatim>\<open>float\<close>. On two \<^verbatim>\<open>int\<close>s it is the exact quotient rounded once, and
  OverflowError when that is beyond the floats; otherwise the operands are converted and
  divided as floats. A zero divisor raises ZeroDivisionError.
\<close>

definition py_truediv :: "json \<Rightarrow> json \<Rightarrow> error + json" where
  "py_truediv a b =
     (case (num_of a, num_of b) of
        (Some (NInt x), Some (NInt y)) \<Rightarrow>
          if y = 0 then Inl ZeroDivisionError
          else if x = 0 then Inr (JFloat (signed_zero (y < 0)))
          else (case to_double (of_int x / of_int y) of
                  PosInf \<Rightarrow> Inl OverflowError
                | NegInf \<Rightarrow> Inl OverflowError
                | f \<Rightarrow> Inr (JFloat f))
      | (Some x, Some y) \<Rightarrow>
          and_then (as_float x) (\<lambda>f.
          and_then (as_float y) (\<lambda>g.
            if finite_value g = Some 0 then Inl ZeroDivisionError
            else Inr (JFloat (div_float f g))))
      | _ \<Rightarrow> Inl TypeError)"

subsection \<open>Comparisons\<close>

text \<open>
  Numbers compare by their exact values, whatever their types: an \<^verbatim>\<open>int\<close> is not rounded
  for the comparison with a \<^verbatim>\<open>float\<close>. The place of a number in the order is a pair, the
  first component telling the infinities from the finite values; NaN has no place, and
  every ordering comparison with it is false.
\<close>

fun order_key :: "json \<Rightarrow> (int \<times> rat) option" where
  "order_key (JInt i) = Some (0, of_int i)"
| "order_key (JBool b) = Some (0, if b then 1 else 0)"
| "order_key (JFloat (Finite r)) = Some (0, r)"
| "order_key (JFloat NegZero) = Some (0, 0)"
| "order_key (JFloat PosInf) = Some (1, 0)"
| "order_key (JFloat NegInf) = Some (- 1, 0)"
| "order_key _ = None"

definition key_le :: "int \<times> rat \<Rightarrow> int \<times> rat \<Rightarrow> bool" where
  "key_le p q = (fst p < fst q \<or> (fst p = fst q \<and> snd p \<le> snd q))"

text \<open>
  The two ordering comparisons the code uses: \<^verbatim>\<open><=\<close> in \<^verbatim>\<open>update\<close> and \<^verbatim>\<open>>\<close>
  (\<^verbatim>\<open>max\<close> compares keys with it, and the rate code tests \<^verbatim>\<open>time_delta > 0\<close>).
\<close>

datatype cmp_op = LE | GT

fun cmp_holds :: "cmp_op \<Rightarrow> 'a::linorder \<Rightarrow> 'a \<Rightarrow> bool" where
  "cmp_holds LE a b = (a \<le> b)"
| "cmp_holds GT a b = (a > b)"

definition num_cmp :: "cmp_op \<Rightarrow> json \<Rightarrow> json \<Rightarrow> bool" where
  "num_cmp c a b =
     (case (order_key a, order_key b) of
        (Some p, Some q) \<Rightarrow> (case c of LE \<Rightarrow> key_le p q | GT \<Rightarrow> \<not> key_le p q)
      | _ \<Rightarrow> False)"

fun str_lt :: "string \<Rightarrow> string \<Rightarrow> bool" where
  "str_lt [] ys = (ys \<noteq> [])"
| "str_lt (x # xs) [] = False"
| "str_lt (x # xs) (y # ys) = (if x = y then str_lt xs ys else (of_char x :: nat) < of_char y)"

fun str_cmp :: "cmp_op \<Rightarrow> string \<Rightarrow> string \<Rightarrow> bool" where
  "str_cmp LE a b = (\<not> str_lt b a)"
| "str_cmp GT a b = str_lt b a"

text \<open>
  The test that the comparison of two lists applies to their elements to find the first
  pair that differs: the two are the same object, or they are \<^verbatim>\<open>==\<close>. Numbers are \<^verbatim>\<open>==\<close>
  by value, lists by elements, dicts as mappings. \<^verbatim>\<open>json.loads\<close> yields one and the same
  object for every NaN it reads, so two such elements pass the test although NaN is not
  \<^verbatim>\<open>==\<close> to itself.
\<close>

fun py_eq :: "json \<Rightarrow> json \<Rightarrow> bool"
  and arr_eq :: "json list \<Rightarrow> json list \<Rightarrow> bool"
  and obj_sub :: "dict \<Rightarrow> dict \<Rightarrow> bool" where
  "py_eq JNull y = (y = JNull)"
| "py_eq (JBool a) y = (num_of y \<noteq> None \<and> order_key y = order_key (JBool a))"
| "py_eq (JInt a) y = (num_of y \<noteq> None \<and> order_key y = order_key (JInt a))"
| "py_eq (JFloat a) y = (num_of y \<noteq> None \<and> order_key y = order_key (JFloat a))"
| "py_eq (JStr a) y = (y = JStr a)"
| "py_eq (JArr xs) y = (case y of JArr ys \<Rightarrow> arr_eq xs ys | _ \<Rightarrow> False)"
| "py_eq (JObj a) y = (case y of JObj b \<Rightarrow> length a = length b \<and> obj_sub a b | _ \<Rightarrow> False)"
| "arr_eq [] ys = (ys = [])"
| "arr_eq (x # xs) ys = (case ys of [] \<Rightarrow> False | y # ys' \<Rightarrow> py_eq x y \<and> arr_eq xs ys')"
| "obj_sub [] b = True"
| "obj_sub (kv # a) b =
     (case map_of b (fst kv) of None \<Rightarrow> False | Some w \<Rightarrow> py_eq (snd kv) w \<and> obj_sub a b)"

text \<open>
  Numbers compare as above, strings by code points, lists by their first differing
  elements and then by length; every other pair of types raises TypeError.
\<close>

fun py_cmp :: "cmp_op \<Rightarrow> json \<Rightarrow> json \<Rightarrow> error + bool"
  and arr_cmp :: "cmp_op \<Rightarrow> json list \<Rightarrow> json list \<Rightarrow> error + bool" where
  "py_cmp c (JArr xs) y = (case y of JArr ys \<Rightarrow> arr_cmp c xs ys | _ \<Rightarrow> Inl TypeError)"
| "py_cmp c (JStr a) y = (case y of JStr b \<Rightarrow> Inr (str_cmp c a b) | _ \<Rightarrow> Inl TypeError)"
| "py_cmp c (JInt a) y = (if num_of y = None then Inl TypeError else Inr (num_cmp c (JInt a) y))"
| "py_cmp c (JFloat a) y = (if num_of y = None then Inl TypeError else Inr (num_cmp c (JFloat a) y))"
| "py_cmp c (JBool a) y = (if num_of y = None then Inl TypeError else Inr (num_cmp c (JBool a) y))"
| "py_cmp c JNull y = Inl TypeError"
| "py_cmp c (JObj a) y = Inl TypeError"
| "arr_cmp c [] ys = Inr (cmp_holds c (0::nat) (length ys))"
| "arr_cmp c (x # xs) ys =
     (case ys of
        [] \<Rightarrow> Inr (cmp_holds c (Suc (length xs)) 0)
      | y # ys' \<Rightarrow> if py_eq x y then arr_cmp c xs ys' else py_cmp c x y)"

section \<open>The metrics processor (dashboard_server.py)\<close>

text \<open>
  The fields of \<^verbatim>\<open>StatelessMetricsProcessor\<close>. A method body runs under the instance's
  lock, so a call is one step on this record; a call that raises leaves the record as
  the assignments made before the exception have it.
\<close>

record processor =
  latest_sample :: "dict option"
  last_seen_ts :: "json option"
  last_counter_values :: dict
  last_counter_ts :: "json option"
  max_age_seconds :: int

definition init :: "int \<Rightarrow> processor" where
  "init max_age =
     \<lparr> latest_sample = None, last_seen_ts = None, last_counter_values = [],
       last_counter_ts = None, max_age_seconds = max_age \<rparr>"

text \<open>
  \<^verbatim>\<open>copy.deepcopy\<close> of a dict: an equal value, built from new objects (the objects are the
  matter of the sections on the heap below). The function calls itself for every level
  of nesting and raises RecursionError when the interpreter's recursion limit is
  reached. Whether a value can be copied within the limit, at the place of the call, is
  the argument \<open>fits\<close>.
\<close>

definition deepcopy :: "(json \<Rightarrow> bool) \<Rightarrow> dict \<Rightarrow> error + dict" where
  "deepcopy fits d = (if fits (JObj d) then Inr d else Inl RecursionError)"

text \<open>\<^verbatim>\<open>snapshot.get(group, {}).get(field, 0)\<close>\<close>

definition counter_of :: "dict \<Rightarrow> string \<Rightarrow> string \<Rightarrow> error + json" where
  "counter_of snapshot g f = method_get (dict_get snapshot g (JObj [])) f (JInt 0)"

text \<open>
  The dict display of \<^verbatim>\<open>update\<close>: its four values are evaluated in order, and the two
  fields are assigned only after all four have been.
\<close>

definition capture_counters :: "processor \<Rightarrow> error + processor" where
  "capture_counters s =
     (case latest_sample s of
        None \<Rightarrow> Inr s
      | Some prev \<Rightarrow>
          and_then (counter_of prev ''disk'' ''read_sectors'') (\<lambda>r.
          and_then (counter_of prev ''disk'' ''write_sectors'') (\<lambda>w.
          and_then (counter_of prev ''network'' ''rx_bytes'') (\<lambda>rx.
          and_then (counter_of prev ''network'' ''tx_bytes'') (\<lambda>tx.
            Inr (s\<lparr> last_counter_values :=
                       [(''disk.read_sectors'', r), (''disk.write_sectors'', w),
                        (''network.rx_bytes'', rx), (''network.tx_bytes'', tx)],
                     last_counter_ts := last_seen_ts s \<rparr>))))))"

text \<open>
  \<^verbatim>\<open>update\<close>: what the call gives (the exception raised or the boolean returned) and the
  processor it leaves. The captured counters are assigned before the sample is copied,
  so a copy that raises leaves them assigned.
\<close>

definition update :: "(json \<Rightarrow> bool) \<Rightarrow> processor \<Rightarrow> dict \<Rightarrow> (error + bool) \<times> processor" where
  "update fits s sample =
     (let sample_ts = dict_get sample ''ts'' JNull in
      if sample_ts = JNull then (Inr False, s)
      else
        (case (case last_seen_ts s of
                 None \<Rightarrow> Inr False
               | Some seen \<Rightarrow> py_cmp LE sample_ts seen) of
           Inl e \<Rightarrow> (Inl e, s)
         | Inr not_advancing \<Rightarrow>
             if not_advancing then (Inr False, s)
             else
               (case capture_counters s of
                  Inl e \<Rightarrow> (Inl e, s)
                | Inr s1 \<Rightarrow>
                    (case deepcopy fits sample of
                       Inl e \<Rightarrow> (Inl e, s1)
                     | Inr copied \<Rightarrow>
                         (Inr True,
                          s1\<lparr> latest_sample := Some copied, last_seen_ts := Some sample_ts \<rparr>)))))"

text \<open>
  The zero-rate block, which the source writes out three times (for a time delta that
  is not positive, and for missing previous data).
\<close>

definition ensure_group :: "dict \<Rightarrow> string \<Rightarrow> dict" where
  "ensure_group out g = (if dict_contains out g then out else dict_set out g (JObj []))"

definition zero_rates :: "dict \<Rightarrow> error + dict" where
  "zero_rates output =
     and_then (set_nested (ensure_group output ''disk'') ''disk'' ''read_sectors_rate'' (JFloat (Finite 0))) (\<lambda>o1.
     and_then (set_nested o1 ''disk'' ''write_sectors_rate'' (JFloat (Finite 0))) (\<lambda>o2.
     and_then (set_nested (ensure_group o2 ''network'') ''network'' ''rx_bytes_rate'' (JFloat (Finite 0))) (\<lambda>o3.
       set_nested o3 ''network'' ''tx_bytes_rate'' (JFloat (Finite 0)))))"

text \<open>\<^verbatim>\<open>(current - prev) / time_delta\<close>\<close>

definition rate :: "json \<Rightarrow> json \<Rightarrow> json \<Rightarrow> error + json" where
  "rate current prev time_delta = and_then (py_sub current prev) (\<lambda>d. py_truediv d time_delta)"

definition counter_rates :: "dict \<Rightarrow> dict \<Rightarrow> json \<Rightarrow> error + dict" where
  "counter_rates output prevs time_delta =
     (let o0 = ensure_group output ''disk'' in
      and_then (counter_of o0 ''disk'' ''read_sectors'') (\<lambda>current_read.
      and_then (counter_of o0 ''disk'' ''write_sectors'') (\<lambda>current_write.
      let prev_read = dict_get prevs ''disk.read_sectors'' (JInt 0);
          prev_write = dict_get prevs ''disk.write_sectors'' (JInt 0) in
      and_then (rate current_read prev_read time_delta) (\<lambda>v1.
      and_then (set_nested o0 ''disk'' ''read_sectors_rate'' v1) (\<lambda>o1.
      and_then (rate current_write prev_write time_delta) (\<lambda>v2.
      and_then (set_nested o1 ''disk'' ''write_sectors_rate'' v2) (\<lambda>o2.
      let o3 = ensure_group o2 ''network'' in
      and_then (counter_of o3 ''network'' ''rx_bytes'') (\<lambda>current_rx.
      and_then (counter_of o3 ''network'' ''tx_bytes'') (\<lambda>current_tx.
      let prev_rx = dict_get prevs ''network.rx_bytes'' (JInt 0);
          prev_tx = dict_get prevs ''network.tx_bytes'' (JInt 0) in
      and_then (rate current_rx prev_rx time_delta) (\<lambda>v3.
      and_then (set_nested o3 ''network'' ''rx_bytes_rate'' v3) (\<lambda>o4.
      and_then (rate current_tx prev_tx time_delta) (\<lambda>v4.
        set_nested o4 ''network'' ''tx_bytes_rate'' v4))))))))))))"

text \<open>\<^verbatim>\<open>self.last_seen_ts - self.last_counter_ts\<close>, when both are set.\<close>

definition time_delta_of :: "processor \<Rightarrow> (error + json) option" where
  "time_delta_of s =
     (case (last_counter_ts s, last_seen_ts s) of
        (Some counter_ts, Some seen) \<Rightarrow> Some (py_sub seen counter_ts)
      | _ \<Rightarrow> None)"

definition get_latest_with_derived :: "(json \<Rightarrow> bool) \<Rightarrow> processor \<Rightarrow> error + dict option" where
  "get_latest_with_derived fits s =
     (case latest_sample s of
        None \<Rightarrow> Inr None
      | Some latest \<Rightarrow>
          and_then (deepcopy fits latest) (\<lambda>output.
          and_then
            (case time_delta_of s of
               Some delta \<Rightarrow>
                 and_then delta (\<lambda>time_delta.
                 and_then (py_cmp GT time_delta (JInt 0)) (\<lambda>positive.
                   if positive then counter_rates output (last_counter_values s) time_delta
                   else zero_rates output))
             | None \<Rightarrow> zero_rates output)
            (\<lambda>output. Inr (Some output))))"

text \<open>
  \<^verbatim>\<open>get_health_status\<close> reads the wall clock once, with \<^verbatim>\<open>time.time()\<close>, which gives a
  float; the reading is the argument \<open>current_time\<close>.
\<close>

definition get_health_status :: "pyfloat \<Rightarrow> processor \<Rightarrow> error + dict" where
  "get_health_status current_time s =
     (case last_seen_ts s of
        None \<Rightarrow> Inr [(''status'', JStr ''stale''), (''last_seen_ts'', JNull)]
      | Some seen \<Rightarrow>
          and_then (py_sub (JFloat current_time) seen) (\<lambda>age_seconds.
          and_then (py_cmp GT age_seconds (JInt (max_age_seconds s))) (\<lambda>too_old.
            if too_old then Inr [(''status'', JStr ''stale''), (''last_seen_ts'', seen)]
            else Inr [(''status'', JStr ''ok''), (''last_seen_ts'', seen)])))"

text \<open>
  A processor driven by a sequence of \<^verbatim>\<open>update\<close> calls, all made at one place of the
  program (the poller's loop), so with one \<open>fits\<close>.
\<close>

definition after_update :: "(json \<Rightarrow> bool) \<Rightarrow> processor \<Rightarrow> dict \<Rightarrow> processor" where
  "after_update fits s sample = snd (update fits s sample)"

definition accepts :: "(json \<Rightarrow> bool) \<Rightarrow> processor \<Rightarrow> dict \<Rightarrow> bool" where
  "accepts fits s sample = (fst (update fits s sample) = Inr True)"

fun feed :: "(json \<Rightarrow> bool) \<Rightarrow> processor \<Rightarrow> dict list \<Rightarrow> processor" where
  "feed fits s [] = s"
| "feed fits s (sample # rest) = feed fits (after_update fits s sample) rest"

fun ever_accepted :: "(json \<Rightarrow> bool) \<Rightarrow> processor \<Rightarrow> dict list \<Rightarrow> bool" where
  "ever_accepted fits s [] = False"
| "ever_accepted fits s (sample # rest) =
     (accepts fits s sample \<or> ever_accepted fits (after_update fits s sample) rest)"

section \<open>The HTTP handler (dashboard_server.py)\<close>

text \<open>
  A response is its status code and its body; a JSON body is the value that
  \<^verbatim>\<open>json.dumps\<close> writes. Headers and the socket are left out, and so are the handlers'
  \<^verbatim>\<open>except\<close> branches around \<^verbatim>\<open>json.dumps\<close> and the writing of the response. An exception
  of the processor's method is raised before those and leaves the handler.
\<close>

datatype response =
    Json_Response nat json
  | Html_Response nat
  | Text_Response nat string
  | Error_Response nat

definition serve_metrics :: "(json \<Rightarrow> bool) \<Rightarrow> processor \<Rightarrow> error + response" where
  "serve_metrics fits s =
     and_then (get_latest_with_derived fits s) (\<lambda>sample.
       case sample of
         None \<Rightarrow> Inr (Error_Response 503)
       | Some d \<Rightarrow> Inr (Json_Response 200 (JObj d)))"

definition serve_health :: "pyfloat \<Rightarrow> processor \<Rightarrow> error + response" where
  "serve_health current_time s =
     and_then (get_health_status current_time s) (\<lambda>h. Inr (Json_Response 200 (JObj h)))"

definition do_GET :: "pyfloat \<Rightarrow> (json \<Rightarrow> bool) \<Rightarrow> processor \<Rightarrow> string \<Rightarrow> error + response" where
  "do_GET current_time fits s path =
     (if path = ''/'' \<or> path = ''/index.html'' then Inr (Html_Response 200)
      else if path = ''/metrics'' then serve_metrics fits s
      else if path = ''/health'' then serve_health current_time s
      else Inr (Error_Response 404))"

section \<open>The upstream poller (dashboard_server.py)\<close>

text \<open>
  \<^verbatim>\<open>max(metrics_data, key=...)\<close>: the key of an element is its \<^verbatim>\<open>ts\<close>, and 0 for a dict
  without that key and for an element that is no dict. \<^verbatim>\<open>max\<close> keeps the first element
  and replaces it by a later one whose key is greater (\<^verbatim>\<open>>\<close>) than the key kept.
\<close>

definition sample_key :: "json \<Rightarrow> json" where
  "sample_key x = (case x of JObj d \<Rightarrow> dict_get d ''ts'' (JInt 0) | _ \<Rightarrow> JInt 0)"

fun max_loop :: "json \<Rightarrow> json list \<Rightarrow> error + json" where
  "max_loop best [] = Inr best"
| "max_loop best (x # xs) =
     and_then (py_cmp GT (sample_key x) (sample_key best)) (\<lambda>greater.
       max_loop (if greater then x else best) xs)"

definition py_max :: "json list \<Rightarrow> error + json" where
  "py_max xs = (case xs of [] \<Rightarrow> Inl ValueError | x # rest \<Rightarrow> max_loop x rest)"

text \<open>
  One pass of the loop body of \<^verbatim>\<open>poll_upstream_metrics\<close>, on what \<^verbatim>\<open>_fetch_metrics_sync\<close>
  returned: the parsed body, or \<^verbatim>\<open>None\<close> when the fetch failed. The outcome records the
  log line taken and, when \<^verbatim>\<open>update\<close> was called, the sample passed to it and what the
  call gave. An exception inside the inner \<^verbatim>\<open>try\<close> is logged and the pass ends. The loop
  then sleeps and repeats.
\<close>

datatype outcome =
    Forwarded dict "error + bool"
  | Empty_Array
  | Unexpected_Format
  | Processing_Error error
  | No_Data

definition forward :: "(json \<Rightarrow> bool) \<Rightarrow> processor \<Rightarrow> json \<Rightarrow> outcome \<times> processor" where
  "forward fits s newest_sample =
     (case method_get newest_sample ''ts'' JNull of
        Inl e \<Rightarrow> (Processing_Error e, s)
      | Inr sample_ts \<Rightarrow>
          (case newest_sample of
             JObj d \<Rightarrow> (Forwarded d (fst (update fits s d)), snd (update fits s d))
           | _ \<Rightarrow> (Processing_Error AttributeError, s)))"

definition poll_cycle :: "(json \<Rightarrow> bool) \<Rightarrow> processor \<Rightarrow> json \<Rightarrow> outcome \<times> processor" where
  "poll_cycle fits s metrics_data =
     (case metrics_data of
        JNull \<Rightarrow> (No_Data, s)
      | JArr xs \<Rightarrow>
          if length xs > 0 then
            (case py_max xs of
               Inl e \<Rightarrow> (Processing_Error e, s)
             | Inr newest_sample \<Rightarrow> forward fits s newest_sample)
          else (Empty_Array, s)
      | JObj d \<Rightarrow> forward fits s (JObj d)
      | _ \<Rightarrow> (Unexpected_Format, s))"

section \<open>The file-backed relay (web_server.py)\<close>

text \<open>
  The module's globals. The metrics file is missing, or it is the list of its lines, or
  opening or reading it raises. \<^verbatim>\<open>json.loads\<close> and \<^verbatim>\<open>str.strip\<close> are the library's: they
  are the arguments \<open>loads\<close> and \<open>strip\<close>. On a line \<^verbatim>\<open>json.loads\<close> returns a value,
  raises JSONDecodeError, or raises another exception (ValueError for an integer literal
  longer than the interpreter converts, RecursionError for a deeply nested line).
\<close>

datatype parsed = Value json | Decode_Error | Raises error

datatype file_state = Missing | Lines "string list" | Unreadable error

record relay =
  metrics_cache :: "json list"
  latest_metric_cache :: json
  events_cache :: string
  last_refresh :: json

definition relay_init :: relay where
  "relay_init =
     \<lparr> metrics_cache = [], latest_metric_cache = JObj [], events_cache = [], last_refresh = JInt 0 \<rparr>"

text \<open>
  The loop over the lines: only JSONDecodeError is caught there, and every other
  exception leaves the loop.
\<close>

fun read_lines ::
  "(string \<Rightarrow> parsed) \<Rightarrow> (string \<Rightarrow> string) \<Rightarrow> string list \<Rightarrow> json list \<times> json \<Rightarrow>
     error + json list \<times> json" where
  "read_lines loads strip [] acc = Inr acc"
| "read_lines loads strip (line # rest) (metrics, latest) =
     (let l = strip line in
      if l \<noteq> [] then
        (case loads l of
           Value metric \<Rightarrow> read_lines loads strip rest (metrics @ [metric], metric)
         | Decode_Error \<Rightarrow> read_lines loads strip rest (metrics, latest)
         | Raises e \<Rightarrow> Inl e)
      else read_lines loads strip rest (metrics, latest))"

text \<open>
  \<^verbatim>\<open>load_metrics\<close>: the caches are assigned after the loop; an exception before that is
  caught by the outer \<^verbatim>\<open>except\<close>, which prints it and leaves the caches as they were.
\<close>

definition load_metrics ::
  "(string \<Rightarrow> parsed) \<Rightarrow> (string \<Rightarrow> string) \<Rightarrow> file_state \<Rightarrow> pyfloat \<Rightarrow> relay \<Rightarrow> relay" where
  "load_metrics loads strip metrics_file now c =
     (case (case metrics_file of
              Missing \<Rightarrow> Inr ([], JObj [])
            | Lines lines \<Rightarrow> read_lines loads strip lines ([], JObj [])
            | Unreadable e \<Rightarrow> Inl e) of
        Inl e \<Rightarrow> c
      | Inr (metrics, latest) \<Rightarrow>
          c\<lparr> metrics_cache := metrics, latest_metric_cache := latest, last_refresh := JFloat now \<rparr>)"

text \<open>
  \<^verbatim>\<open>dict(x)\<close>, which \<^verbatim>\<open>serve_latest_metric\<close> applies to the cached value: a copy of a dict,
  the empty dict for an empty sequence, TypeError for a value that cannot be iterated,
  ValueError for a string with characters (each is a sequence of length one). On a list
  with elements Python converts a sequence of pairs; that conversion is the argument
  \<open>of_pairs\<close>.
\<close>

definition py_dict :: "(json list \<Rightarrow> error + dict) \<Rightarrow> json \<Rightarrow> error + dict" where
  "py_dict of_pairs x =
     (case x of
        JObj d \<Rightarrow> Inr d
      | JArr xs \<Rightarrow> if xs = [] then Inr [] else of_pairs xs
      | JStr cs \<Rightarrow> if cs = [] then Inr [] else Inl ValueError
      | _ \<Rightarrow> Inl TypeError)"

definition serve_latest_metric :: "(json list \<Rightarrow> error + dict) \<Rightarrow> relay \<Rightarrow> response" where
  "serve_latest_metric of_pairs c =
     (case py_dict of_pairs (latest_metric_cache c) of
        Inr latest \<Rightarrow> Json_Response 200 (JObj latest)
      | Inl e \<Rightarrow> Error_Response 500)"

text \<open>The routes of \<^verbatim>\<open>MetricsHandler.do_GET\<close>; only the first is followed further.\<close>

datatype route = Latest | Events | Info | Not_Found

definition route_of :: "string \<Rightarrow> route" where
  "route_of path =
     (if path = ''/latest'' \<or> path = ''/latest.json'' then Latest
      else if path = ''/events'' \<or> path = ''/events.log'' then Events
      else if path = ''/'' then Info
      else Not_Found)"

section \<open>Notions used to state the properties\<close>

text \<open>The value at \<^verbatim>\<open>snapshot[g][f]\<close>, when \<^verbatim>\<open>g\<close> is a group (a dict) holding \<^verbatim>\<open>f\<close>.\<close>

definition field :: "dict \<Rightarrow> string \<Rightarrow> string \<Rightarrow> json option" where
  "field snapshot g f = (case map_of snapshot g of Some (JObj d) \<Rightarrow> map_of d f | _ \<Rightarrow> None)"

text \<open>Every group named is absent or a dict: the shape of a snapshot.\<close>

definition group_ok :: "dict \<Rightarrow> string \<Rightarrow> bool" where
  "group_ok snapshot g = (case map_of snapshot g of None \<Rightarrow> True | Some (JObj d) \<Rightarrow> True | Some _ \<Rightarrow> False)"

text \<open>A counter field's value, the \<^verbatim>\<open>int\<close> 0 when the field is absent.\<close>

definition counter_value :: "dict \<Rightarrow> string \<Rightarrow> string \<Rightarrow> json" where
  "counter_value snapshot g f = (case field snapshot g f of None \<Rightarrow> JInt 0 | Some v \<Rightarrow> v)"



text \<open>A field of the snapshot that \<^verbatim>\<open>get_latest_with_derived\<close> returns, when it returns one.\<close>

definition derived_field :: "(json \<Rightarrow> bool) \<Rightarrow> processor \<Rightarrow> string \<Rightarrow> string \<Rightarrow> json option" where
  "derived_field fits s g f =
     (case get_latest_with_derived fits s of Inr (Some out) \<Rightarrow> field out g f | _ \<Rightarrow> None)"

text \<open>
  What the fields of a processor have in common after any sequence of calls, raising
  ones included: the timestamp seen is the one of the stored sample, and nothing was
  captured before a sample was stored.
\<close>

definition consistent :: "processor \<Rightarrow> bool" where
  "consistent s =
     (case latest_sample s of
        None \<Rightarrow> last_seen_ts s = None \<and> last_counter_ts s = None \<and> last_counter_values s = []
      | Some latest \<Rightarrow> last_seen_ts s = map_of latest ''ts'' \<and> last_seen_ts s \<noteq> None)"

text \<open>
  A captured timestamp comes with a timestamp seen that is not \<^verbatim>\<open><=\<close> to it: what holds
  as long as no copy has failed.
\<close>

definition advancing :: "processor \<Rightarrow> bool" where
  "advancing s =
     (case last_counter_ts s of
        None \<Rightarrow> True
      | Some counter_ts \<Rightarrow>
          (case last_seen_ts s of None \<Rightarrow> False | Some seen \<Rightarrow> py_cmp LE seen counter_ts = Inr False))"

text \<open>What the calls of \<^verbatim>\<open>update\<close> in a sequence gave, one after the other.\<close>

fun results :: "(json \<Rightarrow> bool) \<Rightarrow> processor \<Rightarrow> dict list \<Rightarrow> (error + bool) list" where
  "results fits s [] = []"
| "results fits s (sample # rest) =
     fst (update fits s sample) # results fits (after_update fits s sample) rest"

text \<open>
  A float as \<^verbatim>\<open>json.loads\<close> and the arithmetic yield them: not NaN, and, when finite, one
  of the values that a float can hold.
\<close>

definition ordinary :: "pyfloat \<Rightarrow> bool" where
  "ordinary f = (case f of Finite r \<Rightarrow> to_double r = Finite r | NaN \<Rightarrow> False | _ \<Rightarrow> True)"

text \<open>Two timestamps of one type: two \<^verbatim>\<open>int\<close>s, or two such floats.\<close>

definition same_type :: "json \<Rightarrow> json \<Rightarrow> bool" where
  "same_type a b =
     (case (a, b) of
        (JInt i, JInt j) \<Rightarrow> True
      | (JFloat f, JFloat g) \<Rightarrow> ordinary f \<and> ordinary g
      | _ \<Rightarrow> False)"


text \<open>The two samples of the specification's scenario, and a sample without groups.\<close>

definition sample_100 :: dict where
  "sample_100 =
     [(''ts'', JInt 100),
      (''disk'', JObj [(''read_sectors'', JInt 1000), (''write_sectors'', JInt 500)]),
      (''network'', JObj [(''rx_bytes'', JInt 2000), (''tx_bytes'', JInt 1000)])]"

definition sample_110 :: dict where
  "sample_110 =
     [(''ts'', JInt 110),
      (''disk'', JObj [(''read_sectors'', JInt 1100), (''write_sectors'', JInt 550)]),
      (''network'', JObj [(''rx_bytes'', JInt 2500), (''tx_bytes'', JInt 1300)])]"

definition bare_sample :: dict where
  "bare_sample = [(''ts'', JInt 5)]"

text \<open>
  For the examples: a recursion limit that every value fits, and one that the values
  nested less than 500 deep fit (\<^verbatim>\<open>copy.deepcopy\<close> takes two frames for a level of
  nesting, and the interpreter's default limit is 1000 frames).
\<close>

definition all_fit :: "json \<Rightarrow> bool" where
  "all_fit v = True"

fun depth :: "json \<Rightarrow> nat"
  and depth_list :: "json list \<Rightarrow> nat"
  and depth_fields :: "dict \<Rightarrow> nat" where
  "depth (JArr js) = Suc (depth_list js)"
| "depth (JObj kjs) = Suc (depth_fields kjs)"
| "depth JNull = 0"
| "depth (JBool b) = 0"
| "depth (JInt i) = 0"
| "depth (JFloat f) = 0"
| "depth (JStr s) = 0"
| "depth_list [] = 0"
| "depth_list (j # js) = max (depth j) (depth_list js)"
| "depth_fields [] = 0"
| "depth_fields (kj # kjs) = max (depth (snd kj)) (depth_fields kjs)"

definition shallow :: "json \<Rightarrow> bool" where
  "shallow v = (depth v < 500)"

fun nested :: "nat \<Rightarrow> json" where
  "nested 0 = JArr []"
| "nested (Suc n) = JArr [nested n]"

definition deep_sample :: dict where
  "deep_sample = [(''ts'', JInt 110), (''extra'', nested 600)]"

text \<open>
  For the examples: a sample whose timestamp is the float \<open>2^53\<close>, one whose timestamp is
  the \<^verbatim>\<open>int\<close> \<open>2^53 + 1\<close>, and samples with the timestamps 1.0 and NaN.
\<close>

definition float_sample :: dict where
  "float_sample = [(''ts'', JFloat (Finite 9007199254740992))]"

definition int_sample :: dict where
  "int_sample = [(''ts'', JInt 9007199254740993)]"

definition one_sample :: dict where
  "one_sample = [(''ts'', JFloat (Finite 1))]"

definition nan_sample :: dict where
  "nan_sample = [(''ts'', JFloat NaN)]"

text \<open>What \<^verbatim>\<open>update\<close> gave for a sample: the exception raised or the boolean returned.\<close>

definition call_result :: "(json \<Rightarrow> bool) \<Rightarrow> processor \<Rightarrow> dict \<Rightarrow> error + bool" where
  "call_result fits s sample = fst (update fits s sample)"

text \<open>
  An element of an upstream array that is a dict whose \<^verbatim>\<open>ts\<close>, if it has one, is a
  number other than NaN; the place of its timestamp in the order of the numbers, an
  element without \<^verbatim>\<open>ts\<close> counting as 0; and the first element of an array whose timestamp
  so counted is maximal.
\<close>

definition keyed :: "json \<Rightarrow> bool" where
  "keyed x = (case x of
                JObj d \<Rightarrow> (case map_of d ''ts'' of None \<Rightarrow> True | Some v \<Rightarrow> order_key v \<noteq> None)
              | _ \<Rightarrow> False)"

definition ts_or_zero :: "json \<Rightarrow> int \<times> rat" where
  "ts_or_zero x =
     (case x of
        JObj d \<Rightarrow> (case map_of d ''ts'' of
                     None \<Rightarrow> (0, 0)
                   | Some v \<Rightarrow> (case order_key v of None \<Rightarrow> (0, 0) | Some p \<Rightarrow> p))
      | _ \<Rightarrow> (0, 0))"

definition spec_newest :: "json list \<Rightarrow> json" where
  "spec_newest xs = hd (filter (\<lambda>x. \<forall>y \<in> set xs. key_le (ts_or_zero y) (ts_or_zero x)) xs)"

text \<open>
  The specification's reading of the relay: the values of the lines that parse, and the
  last of them (the empty dict when there is none). A refresh is aborted by a line on
  which \<^verbatim>\<open>json.loads\<close> raises something else than JSONDecodeError.
\<close>

definition parsed_lines :: "(string \<Rightarrow> parsed) \<Rightarrow> (string \<Rightarrow> string) \<Rightarrow> string list \<Rightarrow> json list" where
  "parsed_lines loads strip lines =
     List.map_filter
       (\<lambda>line. if strip line = [] then None
               else (case loads (strip line) of Value metric \<Rightarrow> Some metric | _ \<Rightarrow> None)) lines"

definition spec_latest :: "(string \<Rightarrow> parsed) \<Rightarrow> (string \<Rightarrow> string) \<Rightarrow> string list \<Rightarrow> json" where
  "spec_latest loads strip lines =
     (if parsed_lines loads strip lines = [] then JObj []
      else last (parsed_lines loads strip lines))"

definition aborting :: "(string \<Rightarrow> parsed) \<Rightarrow> (string \<Rightarrow> string) \<Rightarrow> string list \<Rightarrow> bool" where
  "aborting loads strip lines =
     list_ex (\<lambda>line. strip line \<noteq> [] \<and> (case loads (strip line) of Raises e \<Rightarrow> True | _ \<Rightarrow> False)) lines"

text \<open>
  For the examples: a reader that raises ValueError on a run of more than 4300 digits,
  reads two objects and a number, and rejects every other line; and a conversion that
  finds no sequence of pairs.
\<close>

definition loads_example :: "string \<Rightarrow> parsed" where
  "loads_example line =
     (if 4300 < length line \<and> set line \<subseteq> {CHR ''1''} then Raises ValueError
      else if line = ''{\"ts\": 7}'' then Value (JObj [(''ts'', JInt 7)])
      else if line = ''{\"ts\": 8}'' then Value (JObj [(''ts'', JInt 8)])
      else if line = ''5'' then Value (JInt 5)
      else Decode_Error)"

definition no_pairs :: "json list \<Rightarrow> error + dict" where
  "no_pairs xs = Inl TypeError"

section \<open>Dicts and sequencing\<close>

lemma and_then_Inl [simp]: "and_then (Inl e) f = Inl e"
  by (simp add: and_then_def)

lemma and_then_Inr [simp]: "and_then (Inr x) f = f x"
  by (simp add: and_then_def)

lemma and_then_eq_Inr: "and_then r f = Inr y \<longleftrightarrow> (\<exists>x. r = Inr x \<and> f x = Inr y)"
  by (cases r) simp_all

lemma map_of_dict_set: "map_of (dict_set d k v) k' = (if k' = k then Some v else map_of d k')"
  by (induction d k v rule: dict_set.induct) auto

lemma field_dict_set:
  "field (dict_set out g (JObj d)) g' k = (if g' = g then map_of d k else field out g' k)"
  by (simp add: field_def map_of_dict_set)

lemma field_ensure_group: "field (ensure_group out g) g' k = field out g' k"
  by (auto simp: ensure_group_def dict_contains_def field_def map_of_dict_set)

lemma set_nested_Inr:
  "set_nested out g k v = Inr out' \<Longrightarrow>
     field out' g' k' = (if g' = g \<and> k' = k then Some v else field out g' k')"
  by (cases "g' = g")
     (auto simp: set_nested_def dict_get_def field_def map_of_dict_set
           split: option.splits json.splits)

lemma group_ok_ensure_group: "group_ok (ensure_group out g) g' = group_ok out g'"
  by (cases "g' = g") (auto simp: ensure_group_def dict_contains_def group_ok_def map_of_dict_set)

lemma set_nested_group_ok:
  "set_nested out g k v = Inr out' \<Longrightarrow> group_ok out' g' = group_ok out g'"
  by (cases "g' = g")
     (auto simp: set_nested_def dict_get_def group_ok_def map_of_dict_set
           split: option.splits json.splits)

lemma set_nested_defined:
  "group_ok out g \<Longrightarrow> dict_contains out g \<Longrightarrow> \<exists>out'. set_nested out g k v = Inr out'"
  by (auto simp: set_nested_def dict_get_def group_ok_def dict_contains_def
           split: option.splits json.splits)

lemma dict_contains_ensure_group: "dict_contains (ensure_group out g) g"
  by (auto simp: ensure_group_def dict_contains_def map_of_dict_set)

lemma set_nested_contains:
  "set_nested out g k v = Inr out' \<Longrightarrow> dict_contains out' g' = dict_contains out g'"
  by (cases "g' = g")
     (auto simp: set_nested_def dict_get_def dict_contains_def map_of_dict_set
           split: option.splits json.splits)

lemma dict_contains_ensure_other: "dict_contains out g' \<Longrightarrow> dict_contains (ensure_group out g) g'"
  by (auto simp: ensure_group_def dict_contains_def map_of_dict_set)

lemma zero_rates_fields:
  assumes "zero_rates out = Inr out'"
  shows "field out' ''disk'' ''read_sectors_rate'' = Some (JFloat (Finite 0))
       \<and> field out' ''disk'' ''write_sectors_rate'' = Some (JFloat (Finite 0))
       \<and> field out' ''network'' ''rx_bytes_rate'' = Some (JFloat (Finite 0))
       \<and> field out' ''network'' ''tx_bytes_rate'' = Some (JFloat (Finite 0))"
proof -
  from assms obtain o1 o2 o3 where
    1: "set_nested (ensure_group out ''disk'') ''disk'' ''read_sectors_rate'' (JFloat (Finite 0)) = Inr o1" and
    2: "set_nested o1 ''disk'' ''write_sectors_rate'' (JFloat (Finite 0)) = Inr o2" and
    3: "set_nested (ensure_group o2 ''network'') ''network'' ''rx_bytes_rate'' (JFloat (Finite 0)) = Inr o3" and
    4: "set_nested o3 ''network'' ''tx_bytes_rate'' (JFloat (Finite 0)) = Inr out'"
    unfolding zero_rates_def and_then_eq_Inr by blast
  show ?thesis
    by (simp add: set_nested_Inr[OF 4] set_nested_Inr[OF 3] set_nested_Inr[OF 2]
        set_nested_Inr[OF 1] field_ensure_group)
qed

lemma zero_rates_defined:
  assumes "group_ok out ''disk''" "group_ok out ''network''"
  shows "\<exists>out'. zero_rates out = Inr out'"
proof -
  obtain o1 where 1: "set_nested (ensure_group out ''disk'') ''disk'' ''read_sectors_rate'' (JFloat (Finite 0)) = Inr o1"
    using set_nested_defined[of "ensure_group out ''disk''" "''disk''"] assms
    by (auto simp: group_ok_ensure_group dict_contains_ensure_group)
  obtain o2 where 2: "set_nested o1 ''disk'' ''write_sectors_rate'' (JFloat (Finite 0)) = Inr o2"
    using set_nested_defined[of o1 "''disk''" "''write_sectors_rate''" "JFloat (Finite 0)"] assms
    by (auto simp: set_nested_group_ok[OF 1] set_nested_contains[OF 1]
          group_ok_ensure_group dict_contains_ensure_group)
  have g2: "group_ok o2 ''network''"
    using assms by (simp add: set_nested_group_ok[OF 2] set_nested_group_ok[OF 1] group_ok_ensure_group)
  obtain o3 where 3: "set_nested (ensure_group o2 ''network'') ''network'' ''rx_bytes_rate'' (JFloat (Finite 0)) = Inr o3"
    using set_nested_defined[of "ensure_group o2 ''network''" "''network''"] g2
    by (auto simp: group_ok_ensure_group dict_contains_ensure_group)
  obtain o4 where 4: "set_nested o3 ''network'' ''tx_bytes_rate'' (JFloat (Finite 0)) = Inr o4"
    using set_nested_defined[of o3 "''network''" "''tx_bytes_rate''" "JFloat (Finite 0)"] g2
    by (auto simp: set_nested_group_ok[OF 3] set_nested_contains[OF 3]
          group_ok_ensure_group dict_contains_ensure_group)
  show ?thesis
    by (simp add: zero_rates_def 1 2 3 4)
qed

lemma counter_of_eq:
  "counter_of snapshot g f =
     (if group_ok snapshot g then Inr (counter_value snapshot g f) else Inl AttributeError)"
  by (auto simp: counter_of_def method_get_def dict_get_def group_ok_def counter_value_def field_def
           split: option.splits json.splits)

lemma counter_value_ensure_group:
  "counter_value (ensure_group out g) g' f = counter_value out g' f"
  by (simp add: counter_value_def field_ensure_group)

lemma counter_rates_Inr:
  assumes "counter_rates out prevs td = Inr out'"
  shows "group_ok out ''disk'' \<and> group_ok out ''network'' \<and>
         (\<exists>v1 v2 v3 v4.
            rate (counter_value out ''disk'' ''read_sectors'')
                 (dict_get prevs ''disk.read_sectors'' (JInt 0)) td = Inr v1 \<and>
            rate (counter_value out ''disk'' ''write_sectors'')
                 (dict_get prevs ''disk.write_sectors'' (JInt 0)) td = Inr v2 \<and>
            rate (counter_value out ''network'' ''rx_bytes'')
                 (dict_get prevs ''network.rx_bytes'' (JInt 0)) td = Inr v3 \<and>
            rate (counter_value out ''network'' ''tx_bytes'')
                 (dict_get prevs ''network.tx_bytes'' (JInt 0)) td = Inr v4 \<and>
            field out' ''disk'' ''read_sectors_rate'' = Some v1 \<and>
            field out' ''disk'' ''write_sectors_rate'' = Some v2 \<and>
            field out' ''network'' ''rx_bytes_rate'' = Some v3 \<and>
            field out' ''network'' ''tx_bytes_rate'' = Some v4)"
proof -
  let ?o0 = "ensure_group out ''disk''"
  from assms obtain cr cw v1 o1 v2 o2 crx ctx v3 o4 v4 where
    a: "counter_of ?o0 ''disk'' ''read_sectors'' = Inr cr" and
    b: "counter_of ?o0 ''disk'' ''write_sectors'' = Inr cw" and
    r1: "rate cr (dict_get prevs ''disk.read_sectors'' (JInt 0)) td = Inr v1" and
    s1: "set_nested ?o0 ''disk'' ''read_sectors_rate'' v1 = Inr o1" and
    r2: "rate cw (dict_get prevs ''disk.write_sectors'' (JInt 0)) td = Inr v2" and
    s2: "set_nested o1 ''disk'' ''write_sectors_rate'' v2 = Inr o2" and
    c: "counter_of (ensure_group o2 ''network'') ''network'' ''rx_bytes'' = Inr crx" and
    d: "counter_of (ensure_group o2 ''network'') ''network'' ''tx_bytes'' = Inr ctx" and
    r3: "rate crx (dict_get prevs ''network.rx_bytes'' (JInt 0)) td = Inr v3" and
    s3: "set_nested (ensure_group o2 ''network'') ''network'' ''rx_bytes_rate'' v3 = Inr o4" and
    r4: "rate ctx (dict_get prevs ''network.tx_bytes'' (JInt 0)) td = Inr v4" and
    s4: "set_nested o4 ''network'' ''tx_bytes_rate'' v4 = Inr out'"
    unfolding counter_rates_def Let_def and_then_eq_Inr by blast
  have gd: "group_ok out ''disk''" and cr: "cr = counter_value out ''disk'' ''read_sectors''"
    and cw: "cw = counter_value out ''disk'' ''write_sectors''"
    using a b by (auto simp: counter_of_eq group_ok_ensure_group counter_value_ensure_group
        split: if_splits)
  have gn2: "group_ok (ensure_group o2 ''network'') ''network''"
    and crx2: "crx = counter_value o2 ''network'' ''rx_bytes''"
    and ctx2: "ctx = counter_value o2 ''network'' ''tx_bytes''"
    using c d by (auto simp: counter_of_eq counter_value_ensure_group split: if_splits)
  have gn: "group_ok out ''network''"
    using gn2 by (simp add: group_ok_ensure_group set_nested_group_ok[OF s2]
        set_nested_group_ok[OF s1])
  have f2: "field o2 ''network'' f = field out ''network'' f" for f
    by (simp add: set_nested_Inr[OF s2] set_nested_Inr[OF s1] field_ensure_group)
  have crx: "crx = counter_value out ''network'' ''rx_bytes''"
    and ctx: "ctx = counter_value out ''network'' ''tx_bytes''"
    using crx2 ctx2 by (simp_all add: counter_value_def f2)
  have fields: "field out' ''disk'' ''read_sectors_rate'' = Some v1"
    "field out' ''disk'' ''write_sectors_rate'' = Some v2"
    "field out' ''network'' ''rx_bytes_rate'' = Some v3"
    "field out' ''network'' ''tx_bytes_rate'' = Some v4"
    by (simp_all add: set_nested_Inr[OF s4] set_nested_Inr[OF s3] set_nested_Inr[OF s2]
        set_nested_Inr[OF s1] field_ensure_group)
  show ?thesis
    using gd gn r1 r2 r3 r4 fields unfolding cr cw crx ctx by blast
qed


section \<open>Floats\<close>

lemma pow2_powi: "pow2 k = 2 powi k"
  by (simp add: pow2_def power_int_def inverse_eq_divide power_one_over)

lemma pow2_pos [simp]: "0 < pow2 k"
  by (simp add: pow2_powi)

lemma pow2_add: "pow2 (a + b) = pow2 a * pow2 b"
  by (simp add: pow2_powi power_int_add)

lemma pow2_mono: "a \<le> b \<Longrightarrow> pow2 a \<le> pow2 b"
  by (simp add: pow2_powi power_int_increasing)

lemma pow2_nat: "0 \<le> k \<Longrightarrow> pow2 k = of_int (2 ^ nat k)"
  by (simp add: pow2_def)

lemma round_half_even_ge: "1 \<le> y \<Longrightarrow> 1 \<le> round_half_even y"
proof -
  assume "1 \<le> y"
  then have "1 \<le> \<lfloor>y\<rfloor>" by linarith
  then show ?thesis
    by (auto simp: round_half_even_def Let_def)
qed

lemma floor_log2_le:
  assumes "0 < q"
  shows "pow2 (floor_log2 q) \<le> q"
proof -
  obtain a b where ab: "quotient_of q = (a, b)" by (cases "quotient_of q")
  then have b: "0 < b" by (rule quotient_of_denom_pos)
  have q: "q = of_int a / of_int b"
    using ab by (rule quotient_of_div)
  have a: "0 < a"
    using assms b unfolding q by (simp add: zero_less_divide_iff)
  let ?k = "bitlen a - bitlen b"
  have la: "(2::int) ^ nat (bitlen a - 1) \<le> a" and ub: "b < 2 ^ nat (bitlen b)"
    using bitlen_bounds[OF a] bitlen_bounds[OF b] by simp_all
  have ba: "1 \<le> bitlen a"
    using a by (simp add: bitlen_alt_def)
  have bb: "0 \<le> bitlen b"
    by (rule bitlen_nonneg)
  have 1: "pow2 (bitlen a - 1) \<le> of_int a"
  proof -
    have "(of_int (2 ^ nat (bitlen a - 1)) :: rat) \<le> of_int a"
      using la by (simp only: of_int_le_iff)
    then show ?thesis
      using ba by (simp only: pow2_nat)
  qed
  have 2: "of_int b \<le> pow2 (bitlen b)"
  proof -
    have "(of_int b :: rat) \<le> of_int (2 ^ nat (bitlen b))"
      using ub by (simp only: of_int_le_iff)
    then show ?thesis
      using bb by (simp only: pow2_nat)
  qed
  have 3: "pow2 (?k - 1) * pow2 (bitlen b) = pow2 (bitlen a - 1)"
    by (simp only: pow2_add[symmetric]) simp
  have "pow2 (?k - 1) * of_int b \<le> pow2 (?k - 1) * pow2 (bitlen b)"
    using 2 by (intro mult_left_mono) (simp_all add: less_imp_le)
  then have "pow2 (?k - 1) * of_int b \<le> of_int a"
    using 1 3 by simp
  then have low: "pow2 (?k - 1) \<le> q"
    using b unfolding q by (simp add: pos_le_divide_eq)
  show ?thesis
    using low by (simp add: floor_log2_def ab Let_def)
qed

lemma to_double_grid:
  assumes "to_double r = Finite r"
  shows "\<exists>n::int. r = of_int n * pow2 (- 1074)"
proof (cases "r = 0")
  case True
  then show ?thesis by (intro exI[of _ 0]) simp
next
  case False
  define x where "x = max (floor_log2 \<bar>r\<bar> - 52) (- 1074)"
  define m where "m = round_half_even (\<bar>r\<bar> / pow2 x)"
  have "r = of_int m * pow2 x \<or> r = - (of_int m * pow2 x)"
    using assms False unfolding to_double_def Let_def x_def[symmetric] m_def[symmetric]
    by (auto split: if_splits)
  moreover have "pow2 x = of_int (2 ^ nat (x + 1074)) * pow2 (- 1074)"
  proof -
    have "0 \<le> x + 1074" by (simp add: x_def)
    then have "pow2 (x + 1074) = of_int (2 ^ nat (x + 1074))"
      by (rule pow2_nat)
    moreover have "pow2 x = pow2 (x + 1074) * pow2 (- 1074)"
      by (simp only: pow2_add[symmetric]) simp
    ultimately show ?thesis by simp
  qed
  ultimately have "r = of_int (m * 2 ^ nat (x + 1074)) * pow2 (- 1074) \<or>
      r = of_int (- (m * 2 ^ nat (x + 1074))) * pow2 (- 1074)"
    by auto
  then show ?thesis by blast
qed

lemma to_double_positive:
  assumes "pow2 (- 1074) \<le> q"
  shows "to_double q = PosInf \<or> (\<exists>p. 0 < p \<and> to_double q = Finite p)"
proof -
  have q: "0 < q"
    using assms pow2_pos[of "- 1074"] by linarith
  define x where "x = max (floor_log2 \<bar>q\<bar> - 52) (- 1074)"
  define m where "m = round_half_even (\<bar>q\<bar> / pow2 x)"
  have "pow2 x \<le> q"
  proof (cases "floor_log2 q - 52 \<le> - 1074")
    case True
    then have "x = - 1074" using q by (simp add: x_def)
    then show ?thesis using assms by simp
  next
    case False
    then have "x = floor_log2 q - 52" using q by (simp add: x_def)
    then have "pow2 x \<le> pow2 (floor_log2 q)"
      by (simp add: pow2_mono)
    then show ?thesis
      using floor_log2_le[OF q] by linarith
  qed
  then have "1 \<le> \<bar>q\<bar> / pow2 x"
    using q by (simp add: pos_le_divide_eq)
  then have m: "1 \<le> m"
    unfolding m_def by (rule round_half_even_ge)
  then have "0 < of_int m * pow2 x"
    by (simp add: zero_less_mult_iff)
  then show ?thesis
    using q m unfolding to_double_def Let_def x_def[symmetric] m_def[symmetric]
    by auto
qed

lemma grid_difference:
  assumes "to_double x = Finite x" "to_double y = Finite y" "y < x"
  shows "pow2 (- 1074) \<le> x - y"
proof -
  obtain n k :: int where x: "x = of_int n * pow2 (- 1074)" and y: "y = of_int k * pow2 (- 1074)"
    using to_double_grid[OF assms(1)] to_double_grid[OF assms(2)] by blast
  have "of_int k * pow2 (- 1074) < of_int n * pow2 (- 1074)"
    using assms(3) unfolding x y .
  then have "(of_int k :: rat) < of_int n"
    using pow2_pos[of "- 1074"] by (simp only: mult_less_cancel_right_pos)
  then have "k + 1 \<le> n" by simp
  then have "(of_int (k + 1) :: rat) \<le> of_int n"
    by (simp only: of_int_le_iff)
  then have "(of_int k + 1) * pow2 (- 1074) \<le> of_int n * pow2 (- 1074)"
    using pow2_pos[of "- 1074"] by (simp add: mult_le_cancel_right_pos)
  then show ?thesis
    unfolding x y by (simp add: algebra_simps)
qed

lemma to_double_0 [simp]: "to_double 0 = Finite 0"
  by (simp add: to_double_def)

lemma finite_value_ordinary:
  "ordinary f \<Longrightarrow> finite_value f = Some r \<Longrightarrow> to_double r = Finite r"
  by (cases f) (auto simp: ordinary_def)

text \<open>The difference of a float and a smaller one is positive.\<close>

lemma sub_float_positive:
  assumes f: "ordinary f" and g: "ordinary g"
    and lt: "py_cmp LE (JFloat g) (JFloat f) = Inr False"
  shows "py_cmp GT (JFloat (sub_float g f)) (JInt 0) = Inr True"
proof (cases "finite_value g")
  case None
  then show ?thesis
    using f g lt by (cases g; cases f) (auto simp: ordinary_def sub_float_def num_cmp_def key_le_def)
next
  case gv: (Some x)
  show ?thesis
  proof (cases "finite_value f")
    case None
    then show ?thesis
      using f g lt gv by (cases g; cases f) (auto simp: ordinary_def sub_float_def num_cmp_def key_le_def)
  next
    case fv: (Some y)
    have "y < x"
      using lt gv fv by (cases g; cases f) (auto simp: num_cmp_def key_le_def)
    then have "pow2 (- 1074) \<le> x - y"
      using grid_difference finite_value_ordinary[OF g gv] finite_value_ordinary[OF f fv] by blast
    then have "to_double (x - y) = PosInf \<or> (\<exists>p. 0 < p \<and> to_double (x - y) = Finite p)"
      by (rule to_double_positive)
    moreover have "sub_float g f = to_double (x - y)"
      using gv fv \<open>y < x\<close> by (simp add: sub_float_def)
    ultimately show ?thesis
      by (auto simp: num_cmp_def key_le_def)
  qed
qed

lemma delta_positive:
  assumes "same_type seen counter_ts" and "py_cmp LE seen counter_ts = Inr False"
  shows "\<exists>delta. py_sub seen counter_ts = Inr delta \<and> py_cmp GT delta (JInt 0) = Inr True"
proof (cases seen)
  case (JInt i)
  then obtain j where "counter_ts = JInt j"
    using assms(1) by (cases counter_ts) (simp_all add: same_type_def)
  then show ?thesis
    using JInt assms(2) by (auto simp: py_sub_def num_cmp_def key_le_def)
next
  case (JFloat g)
  then obtain f where c: "counter_ts = JFloat f" and o: "ordinary g" "ordinary f"
    using assms(1) by (cases counter_ts) (simp_all add: same_type_def)
  have "py_sub seen counter_ts = Inr (JFloat (sub_float g f))"
    by (simp add: JFloat c py_sub_def)
  then show ?thesis
    using sub_float_positive[OF o(2) o(1)] assms(2) unfolding JFloat c by simp
qed (use assms(1) in \<open>simp_all add: same_type_def\<close>)

section \<open>The scenario of the specification\<close>

lemma update_first: "update all_fit (init 30) sample_100 =
   (Inr True, \<lparr> latest_sample = Some sample_100, last_seen_ts = Some (JInt 100),
       last_counter_values = [], last_counter_ts = None, max_age_seconds = 30 \<rparr>)"
  by (simp add: update_def Let_def init_def sample_100_def dict_get_def capture_counters_def
      deepcopy_def all_fit_def)

lemma update_second: "update all_fit \<lparr> latest_sample = Some sample_100, last_seen_ts = Some (JInt 100),
       last_counter_values = [], last_counter_ts = None, max_age_seconds = 30 \<rparr> sample_110 =
   (Inr True, \<lparr> latest_sample = Some sample_110, last_seen_ts = Some (JInt 110),
       last_counter_values = [(''disk.read_sectors'', JInt 1000), (''disk.write_sectors'', JInt 500),
                        (''network.rx_bytes'', JInt 2000), (''network.tx_bytes'', JInt 1000)],
       last_counter_ts = Some (JInt 100), max_age_seconds = 30 \<rparr>)"
  by (simp add: update_def Let_def sample_100_def sample_110_def dict_get_def capture_counters_def
      counter_of_def method_get_def deepcopy_def all_fit_def num_cmp_def key_le_def)

lemma feed_two: "feed all_fit (init 30) [sample_100, sample_110] =
   \<lparr> latest_sample = Some sample_110, last_seen_ts = Some (JInt 110),
       last_counter_values = [(''disk.read_sectors'', JInt 1000), (''disk.write_sectors'', JInt 500),
                        (''network.rx_bytes'', JInt 2000), (''network.tx_bytes'', JInt 1000)],
       last_counter_ts = Some (JInt 100), max_age_seconds = 30 \<rparr>"
  by (simp add: after_update_def update_first update_second)

lemma feed_one: "feed all_fit (init 30) [sample_100] =
   \<lparr> latest_sample = Some sample_100, last_seen_ts = Some (JInt 100),
       last_counter_values = [], last_counter_ts = None, max_age_seconds = 30 \<rparr>"
  by (simp add: after_update_def update_first)

lemma feed_bare: "feed all_fit (init 30) [bare_sample] =
   \<lparr> latest_sample = Some bare_sample, last_seen_ts = Some (JInt 5),
       last_counter_values = [], last_counter_ts = None, max_age_seconds = 30 \<rparr>"
  by (simp add: after_update_def update_def Let_def init_def bare_sample_def dict_get_def
      capture_counters_def deepcopy_def all_fit_def)

section \<open>Derived rates\<close>



lemma get_latest_cases:
  assumes "get_latest_with_derived fits s = Inr (Some out)"
  shows "\<exists>latest. latest_sample s = Some latest \<and> fits (JObj latest) \<and>
           (zero_rates latest = Inr out \<or> (\<exists>td. counter_rates latest (last_counter_values s) td = Inr out))"
  using assms
  by (auto simp: get_latest_with_derived_def deepcopy_def and_then_eq_Inr split: option.splits if_splits)

lemma get_latest_no_previous:
  "latest_sample s = Some latest \<Longrightarrow> fits (JObj latest) \<Longrightarrow>
   last_counter_ts s = None \<or> last_seen_ts s = None \<Longrightarrow>
     get_latest_with_derived fits s = and_then (zero_rates latest) (\<lambda>output. Inr (Some output))"
  by (auto simp: get_latest_with_derived_def time_delta_of_def deepcopy_def split: option.splits)

lemma get_latest_delta:
  "latest_sample s = Some latest \<Longrightarrow> fits (JObj latest) \<Longrightarrow> last_counter_ts s = Some counter_ts \<Longrightarrow>
   last_seen_ts s = Some seen \<Longrightarrow> py_sub seen counter_ts = Inr delta \<Longrightarrow>
   py_cmp GT delta (JInt 0) = Inr positive \<Longrightarrow>
     get_latest_with_derived fits s =
       and_then (if positive then counter_rates latest (last_counter_values s) delta
                 else zero_rates latest) (\<lambda>output. Inr (Some output))"
  by (simp add: get_latest_with_derived_def time_delta_of_def deepcopy_def)



text \<open>The group that \<^verbatim>\<open>out[g][k] = v\<close> changes, and the groups that it leaves.\<close>

lemma set_nested_group:
  assumes "set_nested out g k v = Inr out'"
  shows "\<exists>d. map_of out g = Some (JObj d) \<and> map_of out' g = Some (JObj (dict_set d k v))"
    and "g' \<noteq> g \<Longrightarrow> map_of out' g' = map_of out g'"
  using assms
  by (auto simp: set_nested_def dict_get_def map_of_dict_set split: option.splits json.splits)

lemma ensure_group_absent: "map_of out g = None \<Longrightarrow> map_of (ensure_group out g) g = Some (JObj [])"
  by (simp add: ensure_group_def dict_contains_def map_of_dict_set)

lemma ensure_group_other: "g' \<noteq> g \<Longrightarrow> map_of (ensure_group out g) g' = map_of out g'"
  by (simp add: ensure_group_def map_of_dict_set)

lemma zero_rates_created:
  assumes z: "zero_rates out = Inr out'"
  shows "map_of out ''disk'' = None \<Longrightarrow>
           map_of out' ''disk'' =
             Some (JObj [(''read_sectors_rate'', JFloat (Finite 0)), (''write_sectors_rate'', JFloat (Finite 0))])"
    and "map_of out ''network'' = None \<Longrightarrow>
           map_of out' ''network'' =
             Some (JObj [(''rx_bytes_rate'', JFloat (Finite 0)), (''tx_bytes_rate'', JFloat (Finite 0))])"
proof -
  from z obtain o1 o2 o3 where
    1: "set_nested (ensure_group out ''disk'') ''disk'' ''read_sectors_rate'' (JFloat (Finite 0)) = Inr o1" and
    2: "set_nested o1 ''disk'' ''write_sectors_rate'' (JFloat (Finite 0)) = Inr o2" and
    3: "set_nested (ensure_group o2 ''network'') ''network'' ''rx_bytes_rate'' (JFloat (Finite 0)) = Inr o3" and
    4: "set_nested o3 ''network'' ''tx_bytes_rate'' (JFloat (Finite 0)) = Inr out'"
    unfolding zero_rates_def and_then_eq_Inr by blast
  show "map_of out' ''disk'' =
             Some (JObj [(''read_sectors_rate'', JFloat (Finite 0)), (''write_sectors_rate'', JFloat (Finite 0))])"
    if "map_of out ''disk'' = None"
    using set_nested_group(1)[OF 1] set_nested_group(1)[OF 2]
      set_nested_group(2)[OF 3, of "''disk''"] set_nested_group(2)[OF 4, of "''disk''"]
      ensure_group_absent[OF that] ensure_group_other[of "''disk''" "''network''" o2]
    by auto
  show "map_of out' ''network'' =
             Some (JObj [(''rx_bytes_rate'', JFloat (Finite 0)), (''tx_bytes_rate'', JFloat (Finite 0))])"
    if "map_of out ''network'' = None"
  proof -
    have "map_of o2 ''network'' = None"
      using set_nested_group(2)[OF 1, of "''network''"] set_nested_group(2)[OF 2, of "''network''"]
        ensure_group_other[of "''network''" "''disk''" out] that
      by simp
    then show ?thesis
      using set_nested_group(1)[OF 3] set_nested_group(1)[OF 4] ensure_group_absent[of o2 "''network''"]
      by auto
  qed
qed

lemma counter_rates_created:
  assumes c: "counter_rates out prevs td = Inr out'"
  shows "map_of out ''disk'' = None \<Longrightarrow>
           \<exists>v1 v2. map_of out' ''disk'' =
             Some (JObj [(''read_sectors_rate'', v1), (''write_sectors_rate'', v2)])"
    and "map_of out ''network'' = None \<Longrightarrow>
           \<exists>v3 v4. map_of out' ''network'' =
             Some (JObj [(''rx_bytes_rate'', v3), (''tx_bytes_rate'', v4)])"
proof -
  let ?o0 = "ensure_group out ''disk''"
  from c obtain v1 o1 v2 o2 v3 o4 v4 where
    s1: "set_nested ?o0 ''disk'' ''read_sectors_rate'' v1 = Inr o1" and
    s2: "set_nested o1 ''disk'' ''write_sectors_rate'' v2 = Inr o2" and
    s3: "set_nested (ensure_group o2 ''network'') ''network'' ''rx_bytes_rate'' v3 = Inr o4" and
    s4: "set_nested o4 ''network'' ''tx_bytes_rate'' v4 = Inr out'"
    unfolding counter_rates_def Let_def and_then_eq_Inr by blast
  show "\<exists>v1 v2. map_of out' ''disk'' =
             Some (JObj [(''read_sectors_rate'', v1), (''write_sectors_rate'', v2)])"
    if "map_of out ''disk'' = None"
    using set_nested_group(1)[OF s1] set_nested_group(1)[OF s2]
      set_nested_group(2)[OF s3, of "''disk''"] set_nested_group(2)[OF s4, of "''disk''"]
      ensure_group_absent[OF that] ensure_group_other[of "''disk''" "''network''" o2]
    by auto
  show "\<exists>v3 v4. map_of out' ''network'' =
             Some (JObj [(''rx_bytes_rate'', v3), (''tx_bytes_rate'', v4)])"
    if "map_of out ''network'' = None"
  proof -
    have "map_of o2 ''network'' = None"
      using set_nested_group(2)[OF s1, of "''network''"] set_nested_group(2)[OF s2, of "''network''"]
        ensure_group_other[of "''network''" "''disk''" out] that
      by simp
    then show ?thesis
      using set_nested_group(1)[OF s3] set_nested_group(1)[OF s4] ensure_group_absent[of o2 "''network''"]
      by auto
  qed
qed



text \<open>
  C10. Every snapshot that \<^verbatim>\<open>get_latest_with_derived\<close> returns has a \<^verbatim>\<open>disk\<close> group holding
  \<^verbatim>\<open>read_sectors_rate\<close> and \<^verbatim>\<open>write_sectors_rate\<close> and a \<^verbatim>\<open>network\<close> group holding
  \<^verbatim>\<open>rx_bytes_rate\<close> and \<^verbatim>\<open>tx_bytes_rate\<close>. A group that the stored sample does not have is
  created in the snapshot returned, as a dict of its two rate fields. A snapshot is
  returned also when the stored sample lacks the groups: with no previous counter data,
  for every stored sample that can be copied and whose groups are dicts where present.
\<close>

theorem derived_fields_present:
  "(get_latest_with_derived fits s = Inr (Some out) \<longrightarrow>
      field out ''disk'' ''read_sectors_rate'' \<noteq> None \<and>
      field out ''disk'' ''write_sectors_rate'' \<noteq> None \<and>
      field out ''network'' ''rx_bytes_rate'' \<noteq> None \<and>
      field out ''network'' ''tx_bytes_rate'' \<noteq> None) \<and>
   (get_latest_with_derived fits s = Inr (Some out) \<and> latest_sample s = Some latest \<and>
    map_of latest ''disk'' = None \<longrightarrow>
      (\<exists>v1 v2. map_of out ''disk'' = Some (JObj [(''read_sectors_rate'', v1), (''write_sectors_rate'', v2)]))) \<and>
   (get_latest_with_derived fits s = Inr (Some out) \<and> latest_sample s = Some latest \<and>
    map_of latest ''network'' = None \<longrightarrow>
      (\<exists>v3 v4. map_of out ''network'' = Some (JObj [(''rx_bytes_rate'', v3), (''tx_bytes_rate'', v4)]))) \<and>
   (latest_sample s = Some latest \<and> fits (JObj latest) \<and>
    group_ok latest ''disk'' \<and> group_ok latest ''network'' \<and> last_counter_ts s = None \<longrightarrow>
      (\<exists>out. get_latest_with_derived fits s = Inr (Some out)))"
proof (intro conjI impI)
  assume "get_latest_with_derived fits s = Inr (Some out)"
  then show "field out ''disk'' ''read_sectors_rate'' \<noteq> None"
    "field out ''disk'' ''write_sectors_rate'' \<noteq> None"
    "field out ''network'' ''rx_bytes_rate'' \<noteq> None"
    "field out ''network'' ''tx_bytes_rate'' \<noteq> None"
    using get_latest_cases[of fits s out] zero_rates_fields[of _ out] counter_rates_Inr[of _ _ _ out]
    by fastforce+
next
  assume h: "get_latest_with_derived fits s = Inr (Some out) \<and> latest_sample s = Some latest \<and>
    map_of latest ''disk'' = None"
  then show "\<exists>v1 v2. map_of out ''disk'' = Some (JObj [(''read_sectors_rate'', v1), (''write_sectors_rate'', v2)])"
    using get_latest_cases[of fits s out] zero_rates_created(1)[of latest out]
      counter_rates_created(1)[of latest _ _ out]
    by auto
next
  assume h: "get_latest_with_derived fits s = Inr (Some out) \<and> latest_sample s = Some latest \<and>
    map_of latest ''network'' = None"
  then show "\<exists>v3 v4. map_of out ''network'' = Some (JObj [(''rx_bytes_rate'', v3), (''tx_bytes_rate'', v4)])"
    using get_latest_cases[of fits s out] zero_rates_created(2)[of latest out]
      counter_rates_created(2)[of latest _ _ out]
    by auto
next
  assume h: "latest_sample s = Some latest \<and> fits (JObj latest) \<and>
    group_ok latest ''disk'' \<and> group_ok latest ''network'' \<and> last_counter_ts s = None"
  then obtain out where "zero_rates latest = Inr out"
    using zero_rates_defined[of latest] by blast
  then show "\<exists>out. get_latest_with_derived fits s = Inr (Some out)"
    using h get_latest_no_previous[of s latest fits] by simp
qed

theorem derived_fields_present_witness:
  "get_latest_with_derived all_fit (feed all_fit (init 30) [bare_sample]) =
     Inr (Some [(''ts'', JInt 5),
        (''disk'', JObj [(''read_sectors_rate'', JFloat (Finite 0)), (''write_sectors_rate'', JFloat (Finite 0))]),
        (''network'', JObj [(''rx_bytes_rate'', JFloat (Finite 0)), (''tx_bytes_rate'', JFloat (Finite 0))])]) \<and>
   field [(''ts'', JInt 5),
        (''disk'', JObj [(''read_sectors_rate'', JFloat (Finite 0)), (''write_sectors_rate'', JFloat (Finite 0))]),
        (''network'', JObj [(''rx_bytes_rate'', JFloat (Finite 0)), (''tx_bytes_rate'', JFloat (Finite 0))])]
     ''network'' ''tx_bytes_rate'' \<noteq> None \<and>
   map_of bare_sample ''disk'' = None \<and> map_of bare_sample ''network'' = None"
proof -
  let ?s = "feed all_fit (init 30) [bare_sample]"
  let ?out = "[(''ts'', JInt 5),
        (''disk'', JObj [(''read_sectors_rate'', JFloat (Finite 0)), (''write_sectors_rate'', JFloat (Finite 0))]),
        (''network'', JObj [(''rx_bytes_rate'', JFloat (Finite 0)), (''tx_bytes_rate'', JFloat (Finite 0))])]"
  have a: "latest_sample ?s = Some bare_sample \<and> all_fit (JObj bare_sample) \<and>
    group_ok bare_sample ''disk'' \<and> group_ok bare_sample ''network'' \<and> last_counter_ts ?s = None"
    unfolding feed_bare by (simp add: all_fit_def group_ok_def bare_sample_def)
  from derived_fields_present[where s = ?s and fits = all_fit and latest = bare_sample,
      THEN conjunct2, THEN conjunct2, THEN conjunct2, THEN mp, OF a]
  obtain out where out: "get_latest_with_derived all_fit ?s = Inr (Some out)"
    by blast
  have absent: "map_of bare_sample ''disk'' = None" "map_of bare_sample ''network'' = None"
    by (simp_all add: bare_sample_def)
  have r: "get_latest_with_derived all_fit ?s = Inr (Some ?out)"
    unfolding feed_bare
    by (simp add: get_latest_with_derived_def time_delta_of_def zero_rates_def deepcopy_def all_fit_def
        ensure_group_def dict_contains_def set_nested_def dict_get_def bare_sample_def)
  have b: "get_latest_with_derived all_fit ?s = Inr (Some ?out) \<and> latest_sample ?s = Some bare_sample \<and>
    map_of bare_sample ''disk'' = None"
    using r a absent by simp
  have c: "get_latest_with_derived all_fit ?s = Inr (Some ?out) \<and> latest_sample ?s = Some bare_sample \<and>
    map_of bare_sample ''network'' = None"
    using r a absent by simp
  note p1 = derived_fields_present[where s = ?s and fits = all_fit and out = ?out,
      THEN conjunct1, THEN mp, OF r]
  note p2 = derived_fields_present[where s = ?s and fits = all_fit and out = ?out and latest = bare_sample,
      THEN conjunct2, THEN conjunct1, THEN mp, OF b]
  note p3 = derived_fields_present[where s = ?s and fits = all_fit and out = ?out and latest = bare_sample,
      THEN conjunct2, THEN conjunct2, THEN conjunct1, THEN mp, OF c]
  show ?thesis
    using r p1 p2 p3 absent by simp
qed

section \<open>Updates and sequences of updates\<close>

lemma capture_counters_Inr:
  assumes "capture_counters s = Inr s1"
  shows "s1 = (case latest_sample s of
                 None \<Rightarrow> s
               | Some prev \<Rightarrow>
                   s\<lparr> last_counter_values :=
                        [(''disk.read_sectors'', counter_value prev ''disk'' ''read_sectors''),
                         (''disk.write_sectors'', counter_value prev ''disk'' ''write_sectors''),
                         (''network.rx_bytes'', counter_value prev ''network'' ''rx_bytes''),
                         (''network.tx_bytes'', counter_value prev ''network'' ''tx_bytes'')],
                      last_counter_ts := last_seen_ts s \<rparr>)"
  using assms
  by (auto simp: capture_counters_def and_then_eq_Inr counter_of_eq split: option.splits if_splits)

lemma capture_counters_Inl: "capture_counters s = Inl e \<Longrightarrow> e = AttributeError"
  by (auto simp: capture_counters_def and_then_def counter_of_eq split: option.splits if_splits sum.splits)

lemma py_cmp_Inl:
  "py_cmp c a b = Inl e \<Longrightarrow> e = TypeError"
  "arr_cmp c xs ys = Inl e \<Longrightarrow> e = TypeError"
  by (induction c a b and c xs ys rule: py_cmp_arr_cmp.induct)
     (auto split: json.splits list.splits if_splits)

text \<open>The four ways in which a call of \<^verbatim>\<open>update\<close> ends.\<close>

lemma update_cases:
  obtains
    (rejected) "update fits s sample = (Inr False, s)"
  | (raised) e where "update fits s sample = (Inl e, s)" "e \<noteq> RecursionError"
  | (copy_failed) s1 where "update fits s sample = (Inl RecursionError, s1)"
      "capture_counters s = Inr s1" "\<not> fits (JObj sample)"
  | (accepted) s1 t where "map_of sample ''ts'' = Some t" "t \<noteq> JNull"
      "case last_seen_ts s of None \<Rightarrow> True | Some seen \<Rightarrow> py_cmp LE t seen = Inr False"
      "capture_counters s = Inr s1" "fits (JObj sample)"
      "update fits s sample = (Inr True, s1\<lparr> latest_sample := Some sample, last_seen_ts := Some t \<rparr>)"
proof (cases "dict_get sample ''ts'' JNull = JNull")
  case True
  then show ?thesis
    using rejected by (simp add: update_def)
next
  case ts: False
  then obtain t where t: "map_of sample ''ts'' = Some t" "t \<noteq> JNull"
    by (auto simp: dict_get_def split: option.splits)
  then have dg: "dict_get sample ''ts'' JNull = t"
    by (simp add: dict_get_def)
  let ?test = "case last_seen_ts s of None \<Rightarrow> Inr False | Some seen \<Rightarrow> py_cmp LE t seen"
  show ?thesis
  proof (cases ?test)
    case (Inl e)
    then have "e = TypeError"
      by (auto split: option.splits dest: py_cmp_Inl(1))
    then show ?thesis
      using raised[of e] Inl t(2) by (simp add: update_def dg)
  next
    case (Inr not_advancing)
    show ?thesis
    proof (cases not_advancing)
      case True
      then show ?thesis
        using rejected Inr t(2) by (simp add: update_def dg)
    next
      case False
      have adv: "case last_seen_ts s of None \<Rightarrow> True | Some seen \<Rightarrow> py_cmp LE t seen = Inr False"
        using Inr False by (auto split: option.splits)
      show ?thesis
      proof (cases "capture_counters s")
        case (Inl e)
        then have "e = AttributeError"
          by (rule capture_counters_Inl)
        then show ?thesis
          using raised[of e] Inl Inr False t(2) by (simp add: update_def dg)
      next
        case cap: (Inr s1)
        show ?thesis
        proof (cases "fits (JObj sample)")
          case True
          then show ?thesis
            using accepted[OF t adv cap True] cap Inr False t(2)
            by (simp add: update_def dg deepcopy_def)
        next
          case nofit: False
          then show ?thesis
            using copy_failed[OF _ cap nofit] cap Inr False t(2)
            by (simp add: update_def dg deepcopy_def)
        qed
      qed
    qed
  qed
qed

lemma update_rejected_same: "fst (update fits s sample) = Inr False \<Longrightarrow> snd (update fits s sample) = s"
  by (cases rule: update_cases[of fits s sample]) simp_all

lemma update_accepted:
  assumes "update fits s sample = (Inr True, s')"
  shows "\<exists>s1 t. map_of sample ''ts'' = Some t \<and> t \<noteq> JNull \<and>
           (case last_seen_ts s of None \<Rightarrow> True | Some seen \<Rightarrow> py_cmp LE t seen = Inr False) \<and>
           capture_counters s = Inr s1 \<and> fits (JObj sample) \<and>
           s' = s1\<lparr> latest_sample := Some sample, last_seen_ts := Some t \<rparr>"
  using assms by (cases rule: update_cases[of fits s sample]) auto

lemma capture_keeps:
  "capture_counters s = Inr s1 \<Longrightarrow>
     latest_sample s1 = latest_sample s \<and> last_seen_ts s1 = last_seen_ts s \<and>
     max_age_seconds s1 = max_age_seconds s"
  by (drule capture_counters_Inr) (simp split: option.splits)

lemma capture_consistent:
  assumes "capture_counters s = Inr s1" and "consistent s"
  shows "consistent s1"
proof (cases "latest_sample s")
  case None
  then show ?thesis
    using capture_counters_Inr[OF assms(1)] assms(2) by simp
next
  case (Some prev)
  then show ?thesis
    using capture_counters_Inr[OF assms(1)] assms(2)
    by (cases "map_of prev ''ts''") (auto simp: consistent_def)
qed

lemma consistent_init: "consistent (init max_age)"
  by (simp add: consistent_def init_def)

lemma consistent_after_update:
  assumes c: "consistent s"
  shows "consistent (after_update fits s sample)"
proof (cases rule: update_cases[of fits s sample])
  case rejected
  then show ?thesis using c by (simp add: after_update_def)
next
  case (raised e)
  then show ?thesis using c by (simp add: after_update_def)
next
  case (copy_failed s1)
  then show ?thesis using c capture_consistent by (simp add: after_update_def)
next
  case (accepted s1 t)
  then show ?thesis by (simp add: after_update_def consistent_def)
qed

lemma consistent_feed: "consistent s \<Longrightarrow> consistent (feed fits s samples)"
  by (induction samples arbitrary: s) (simp_all add: consistent_after_update)

lemma latest_sample_after_update:
  "latest_sample (after_update fits s sample) =
     (if accepts fits s sample then Some sample else latest_sample s)"
proof (cases rule: update_cases[of fits s sample])
  case rejected
  then show ?thesis by (simp add: after_update_def accepts_def)
next
  case (raised e)
  then show ?thesis by (simp add: after_update_def accepts_def)
next
  case (copy_failed s1)
  then show ?thesis using capture_keeps by (simp add: after_update_def accepts_def)
next
  case (accepted s1 t)
  then show ?thesis by (simp add: after_update_def accepts_def)
qed

lemma latest_sample_feed:
  "latest_sample (feed fits s samples) = None \<longleftrightarrow> latest_sample s = None \<and> \<not> ever_accepted fits s samples"
  by (induction samples arbitrary: s) (auto simp: latest_sample_after_update)

lemma get_latest_None_iff: "get_latest_with_derived fits s = Inr None \<longleftrightarrow> latest_sample s = None"
  by (auto simp: get_latest_with_derived_def and_then_eq_Inr split: option.splits)

lemma latest_sample_init: "latest_sample (init max_age) = None"
  by (simp add: init_def)

text \<open>
  C1. \<^verbatim>\<open>update\<close> returns \<^verbatim>\<open>False\<close> and leaves the processor with every field as it was
  when the sample has no \<^verbatim>\<open>ts\<close> (or \<^verbatim>\<open>None\<close> for it), and when a timestamp has been seen and
  the sample's is \<^verbatim>\<open><=\<close> to it; \<^verbatim>\<open>get_latest_with_derived\<close> gives the same result after the
  call as before it.
\<close>

theorem update_rejects_unchanged:
  "map_of sample ''ts'' = None \<or> map_of sample ''ts'' = Some JNull \<or>
   (\<exists>seen t. last_seen_ts s = Some seen \<and> map_of sample ''ts'' = Some t \<and> py_cmp LE t seen = Inr True)
   \<Longrightarrow> update fits s sample = (Inr False, s) \<and>
       after_update fits s sample = s \<and>
       get_latest_with_derived fits' (after_update fits s sample) = get_latest_with_derived fits' s"
proof -
  assume h: "map_of sample ''ts'' = None \<or> map_of sample ''ts'' = Some JNull \<or>
   (\<exists>seen t. last_seen_ts s = Some seen \<and> map_of sample ''ts'' = Some t \<and> py_cmp LE t seen = Inr True)"
  then have u: "update fits s sample = (Inr False, s)"
    by (auto simp: update_def Let_def dict_get_def)
  then show ?thesis
    by (simp add: after_update_def)
qed

theorem update_rejects_unchanged_witness:
  "update all_fit (feed all_fit (init 30) [sample_100]) sample_100 = (Inr False, feed all_fit (init 30) [sample_100]) \<and>
   update all_fit (feed all_fit (init 30) [sample_100]) [] = (Inr False, feed all_fit (init 30) [sample_100]) \<and>
   update all_fit (feed all_fit (init 30) [sample_100]) [(''ts'', JNull)] =
     (Inr False, feed all_fit (init 30) [sample_100])"
  using update_rejects_unchanged[of sample_100 "feed all_fit (init 30) [sample_100]" all_fit all_fit]
    update_rejects_unchanged[of "[]" "feed all_fit (init 30) [sample_100]" all_fit all_fit]
    update_rejects_unchanged[of "[(''ts'', JNull)]" "feed all_fit (init 30) [sample_100]" all_fit all_fit]
  unfolding feed_one by (simp add: sample_100_def num_cmp_def key_le_def)

text \<open>
  C3. After an accepted \<^verbatim>\<open>update\<close> (one that returns \<^verbatim>\<open>True\<close>) of a processor driven so far
  by any sequence of calls, the stored sample is the submitted one and the timestamp
  seen is its \<^verbatim>\<open>ts\<close>. If a sample was stored before, the captured counter values are its
  four counter fields, 0 for a field absent from its group, and the captured timestamp
  is its \<^verbatim>\<open>ts\<close>; if none was, nothing is captured.
\<close>

theorem update_accepted_state:
  "update fits (feed fits (init max_age) history) sample = (Inr True, s') \<Longrightarrow>
     latest_sample s' = Some sample \<and>
     last_seen_ts s' = map_of sample ''ts'' \<and>
     last_seen_ts s' \<noteq> None \<and>
     (case latest_sample (feed fits (init max_age) history) of
        None \<Rightarrow> last_counter_values s' = [] \<and> last_counter_ts s' = None
      | Some prev \<Rightarrow>
          last_counter_values s' =
            [(''disk.read_sectors'', counter_value prev ''disk'' ''read_sectors''),
             (''disk.write_sectors'', counter_value prev ''disk'' ''write_sectors''),
             (''network.rx_bytes'', counter_value prev ''network'' ''rx_bytes''),
             (''network.tx_bytes'', counter_value prev ''network'' ''tx_bytes'')] \<and>
          last_counter_ts s' = map_of prev ''ts'' \<and>
          last_counter_ts s' \<noteq> None)"
proof -
  let ?s = "feed fits (init max_age) history"
  assume u: "update fits ?s sample = (Inr True, s')"
  have c: "consistent ?s"
    by (simp add: consistent_feed consistent_init)
  from update_accepted[OF u] obtain s1 t where
    t: "map_of sample ''ts'' = Some t" and
    cap: "capture_counters ?s = Inr s1" and
    s': "s' = s1\<lparr> latest_sample := Some sample, last_seen_ts := Some t \<rparr>"
    by blast
  show ?thesis
  proof (cases "latest_sample ?s")
    case None
    then have "s1 = ?s" using capture_counters_Inr[OF cap] by simp
    then show ?thesis using c None t by (simp add: s' consistent_def)
  next
    case (Some prev)
    obtain pt where "map_of prev ''ts'' = Some pt" "last_seen_ts ?s = Some pt"
      using c Some unfolding consistent_def by (cases "map_of prev ''ts''") auto
    then show ?thesis
      using capture_counters_Inr[OF cap] Some t by (simp add: s')
  qed
qed

theorem update_accepted_state_witness:
  "latest_sample (feed all_fit (init 30) [sample_100, sample_110]) = Some sample_110 \<and>
   last_seen_ts (feed all_fit (init 30) [sample_100, sample_110]) = Some (JInt 110) \<and>
   last_counter_values (feed all_fit (init 30) [sample_100, sample_110]) =
     [(''disk.read_sectors'', JInt 1000), (''disk.write_sectors'', JInt 500),
      (''network.rx_bytes'', JInt 2000), (''network.tx_bytes'', JInt 1000)] \<and>
   last_counter_ts (feed all_fit (init 30) [sample_100, sample_110]) = Some (JInt 100) \<and>
   last_counter_values (feed all_fit (init 30) [sample_100]) = [] \<and>
   last_counter_ts (feed all_fit (init 30) [sample_100]) = None"
proof -
  have a: "update all_fit (feed all_fit (init 30) [sample_100]) sample_110 =
      (Inr True, feed all_fit (init 30) [sample_100, sample_110])"
    unfolding feed_one feed_two by (rule update_second)
  have b: "update all_fit (feed all_fit (init 30) []) sample_100 = (Inr True, feed all_fit (init 30) [sample_100])"
    unfolding feed_one by (simp add: update_first)
  show ?thesis
    using update_accepted_state[OF a] update_accepted_state[OF b]
    unfolding feed_one
    by (simp add: counter_value_def field_def sample_100_def sample_110_def init_def)
qed





text \<open>
  C5. \<^verbatim>\<open>get_latest_with_derived\<close> returns \<^verbatim>\<open>None\<close> if and only if no call of \<^verbatim>\<open>update\<close> has
  accepted a sample. \<^verbatim>\<open>GET /metrics\<close> answers 503 exactly when
  \<^verbatim>\<open>get_latest_with_derived\<close> returns \<^verbatim>\<open>None\<close>, and 200 with the returned snapshot as its
  JSON body when it returns one.
\<close>

theorem absent_iff_never_accepted:
  "(get_latest_with_derived fits' (feed fits (init max_age) samples) = Inr None
      \<longleftrightarrow> \<not> ever_accepted fits (init max_age) samples) \<and>
   (serve_metrics fits' s = Inr (Error_Response 503) \<longleftrightarrow> get_latest_with_derived fits' s = Inr None) \<and>
   (get_latest_with_derived fits' s = Inr (Some out) \<longrightarrow>
      serve_metrics fits' s = Inr (Json_Response 200 (JObj out))) \<and>
   do_GET current_time fits' s ''/metrics'' = serve_metrics fits' s"
proof (intro conjI)
  show "get_latest_with_derived fits' (feed fits (init max_age) samples) = Inr None
      \<longleftrightarrow> \<not> ever_accepted fits (init max_age) samples"
    by (simp add: get_latest_None_iff latest_sample_feed latest_sample_init)
  show "serve_metrics fits' s = Inr (Error_Response 503) \<longleftrightarrow> get_latest_with_derived fits' s = Inr None"
    by (auto simp: serve_metrics_def and_then_eq_Inr split: option.splits)
  show "get_latest_with_derived fits' s = Inr (Some out) \<longrightarrow>
      serve_metrics fits' s = Inr (Json_Response 200 (JObj out))"
    by (simp add: serve_metrics_def)
  show "do_GET current_time fits' s ''/metrics'' = serve_metrics fits' s"
    by (simp add: do_GET_def)
qed

theorem absent_iff_never_accepted_witness:
  "get_latest_with_derived all_fit (feed all_fit (init 30) []) = Inr None \<and>
   serve_metrics all_fit (init 30) = Inr (Error_Response 503) \<and>
   get_latest_with_derived all_fit (feed all_fit (init 30) [sample_100]) \<noteq> Inr None \<and>
   serve_metrics all_fit (feed all_fit (init 30) [sample_100]) =
     Inr (Json_Response 200 (JObj
       [(''ts'', JInt 100),
        (''disk'', JObj [(''read_sectors'', JInt 1000), (''write_sectors'', JInt 500),
           (''read_sectors_rate'', JFloat (Finite 0)), (''write_sectors_rate'', JFloat (Finite 0))]),
        (''network'', JObj [(''rx_bytes'', JInt 2000), (''tx_bytes'', JInt 1000),
           (''rx_bytes_rate'', JFloat (Finite 0)), (''tx_bytes_rate'', JFloat (Finite 0))])]))"
proof -
  have r: "get_latest_with_derived all_fit (feed all_fit (init 30) [sample_100]) =
     Inr (Some [(''ts'', JInt 100),
        (''disk'', JObj [(''read_sectors'', JInt 1000), (''write_sectors'', JInt 500),
           (''read_sectors_rate'', JFloat (Finite 0)), (''write_sectors_rate'', JFloat (Finite 0))]),
        (''network'', JObj [(''rx_bytes'', JInt 2000), (''tx_bytes'', JInt 1000),
           (''rx_bytes_rate'', JFloat (Finite 0)), (''tx_bytes_rate'', JFloat (Finite 0))])])"
    unfolding feed_one
    by (simp add: get_latest_with_derived_def time_delta_of_def zero_rates_def deepcopy_def all_fit_def
        ensure_group_def dict_contains_def set_nested_def dict_get_def sample_100_def)
  have a: "ever_accepted all_fit (init 30) [sample_100]"
    by (simp add: accepts_def update_first)
  show ?thesis
    using absent_iff_never_accepted[where max_age = 30 and samples = "[]" and s = "init 30"
        and fits = all_fit and fits' = all_fit]
      absent_iff_never_accepted[where max_age = 30 and samples = "[sample_100]"
        and s = "feed all_fit (init 30) [sample_100]" and fits = all_fit and fits' = all_fit] r a
    by simp
qed

lemma advancing_init: "advancing (init max_age)"
  by (simp add: advancing_def init_def)

lemma advancing_after_update:
  assumes c: "consistent s" and a: "advancing s"
    and r: "fst (update fits s sample) \<noteq> Inl RecursionError"
  shows "advancing (after_update fits s sample)"
proof (cases rule: update_cases[of fits s sample])
  case rejected
  then show ?thesis using a by (simp add: after_update_def)
next
  case (raised e)
  then show ?thesis using a by (simp add: after_update_def)
next
  case (copy_failed s1)
  then show ?thesis using r by simp
next
  case (accepted s1 t)
  show ?thesis
  proof (cases "latest_sample s")
    case None
    then have "s1 = s" using capture_counters_Inr[OF accepted(4)] by simp
    moreover have "last_counter_ts s = None"
      using c None by (simp add: consistent_def)
    ultimately show ?thesis
      using accepted(6) by (simp add: after_update_def advancing_def)
  next
    case (Some prev)
    then obtain seen where seen: "last_seen_ts s = Some seen"
      using c by (cases "last_seen_ts s") (auto simp: consistent_def)
    have "last_counter_ts s1 = Some seen"
      using capture_counters_Inr[OF accepted(4)] Some seen by simp
    then show ?thesis
      using accepted(3,6) seen by (simp add: after_update_def advancing_def)
  qed
qed

lemma advancing_feed:
  "consistent s \<Longrightarrow> advancing s \<Longrightarrow> Inl RecursionError \<notin> set (results fits s samples) \<Longrightarrow>
     advancing (feed fits s samples)"
proof (induction samples arbitrary: s)
  case Nil
  then show ?case by simp
next
  case (Cons sample rest)
  have "fst (update fits s sample) \<noteq> Inl RecursionError"
    using Cons.prems(3) by auto
  then have "advancing (after_update fits s sample)"
    using Cons.prems(1,2) by (rule advancing_after_update[rotated 2])
  moreover have "consistent (after_update fits s sample)"
    using Cons.prems(1) by (rule consistent_after_update)
  moreover have "Inl RecursionError \<notin> set (results fits (after_update fits s sample) rest)"
    using Cons.prems(3) by simp
  ultimately show ?case
    using Cons.IH by simp
qed

text \<open>
  C9, as the code has it. In every state reached from the initial one by a sequence of
  \<^verbatim>\<open>update\<close> calls of which none failed to copy its sample, a captured timestamp comes
  with a timestamp seen that is not \<^verbatim>\<open><=\<close> to it. When the two timestamps are two
  \<^verbatim>\<open>int\<close>s, or two floats other than NaN, the time delta is positive and
  \<^verbatim>\<open>get_latest_with_derived\<close> computes the rates from the counters: the zero-rate branch
  for a time delta that is not positive is not taken.
\<close>

theorem previous_timestamp_smaller:
  "Inl RecursionError \<notin> set (results fits (init max_age) samples) \<and>
   last_counter_ts (feed fits (init max_age) samples) = Some counter_ts \<Longrightarrow>
     \<exists>seen latest.
       last_seen_ts (feed fits (init max_age) samples) = Some seen \<and>
       latest_sample (feed fits (init max_age) samples) = Some latest \<and>
       py_cmp LE seen counter_ts = Inr False \<and>
       (same_type seen counter_ts \<longrightarrow>
          (\<exists>delta. time_delta_of (feed fits (init max_age) samples) = Some (Inr delta) \<and>
             py_cmp GT delta (JInt 0) = Inr True \<and>
             (fits' (JObj latest) \<longrightarrow>
                get_latest_with_derived fits' (feed fits (init max_age) samples) =
                  and_then (counter_rates latest (last_counter_values (feed fits (init max_age) samples)) delta)
                    (\<lambda>output. Inr (Some output)))))"
proof -
  let ?s = "feed fits (init max_age) samples"
  assume h: "Inl RecursionError \<notin> set (results fits (init max_age) samples) \<and>
   last_counter_ts ?s = Some counter_ts"
  then have p: "last_counter_ts ?s = Some counter_ts" by simp
  have c: "consistent ?s"
    by (simp add: consistent_feed consistent_init)
  have a: "advancing ?s"
    using h by (simp add: advancing_feed consistent_init advancing_init)
  obtain seen where seen: "last_seen_ts ?s = Some seen" and le: "py_cmp LE seen counter_ts = Inr False"
    using a p unfolding advancing_def by (cases "last_seen_ts ?s") auto
  obtain latest where latest: "latest_sample ?s = Some latest"
    using c seen unfolding consistent_def by (cases "latest_sample ?s") auto
  have "\<exists>delta. time_delta_of ?s = Some (Inr delta) \<and> py_cmp GT delta (JInt 0) = Inr True \<and>
          (fits' (JObj latest) \<longrightarrow>
             get_latest_with_derived fits' ?s =
               and_then (counter_rates latest (last_counter_values ?s) delta) (\<lambda>output. Inr (Some output)))"
    if st: "same_type seen counter_ts"
  proof -
    obtain delta where d: "py_sub seen counter_ts = Inr delta" "py_cmp GT delta (JInt 0) = Inr True"
      using delta_positive[OF st le] by blast
    have "time_delta_of ?s = Some (Inr delta)"
      using p seen d(1) by (simp add: time_delta_of_def)
    moreover have "get_latest_with_derived fits' ?s =
               and_then (counter_rates latest (last_counter_values ?s) delta) (\<lambda>output. Inr (Some output))"
      if "fits' (JObj latest)"
      using get_latest_delta[of _ latest fits', OF latest that p seen d(1) d(2)] by simp
    ultimately show ?thesis using d(2) by blast
  qed
  then show ?thesis using seen latest le by blast
qed

theorem previous_timestamp_smaller_witness:
  "last_counter_ts (feed all_fit (init 30) [sample_100, sample_110]) = Some (JInt 100) \<and>
   last_seen_ts (feed all_fit (init 30) [sample_100, sample_110]) = Some (JInt 110) \<and>
   py_cmp LE (JInt 110) (JInt 100) = Inr False \<and>
   time_delta_of (feed all_fit (init 30) [sample_100, sample_110]) = Some (Inr (JInt 10))"
proof -
  have r: "results all_fit (init 30) [sample_100, sample_110] = [Inr True, Inr True]"
    by (simp add: after_update_def update_first update_second)
  have p: "Inl RecursionError \<notin> set (results all_fit (init 30) [sample_100, sample_110]) \<and>
    last_counter_ts (feed all_fit (init 30) [sample_100, sample_110]) = Some (JInt 100)"
    unfolding r by (simp only: feed_two) simp
  have td: "time_delta_of (feed all_fit (init 30) [sample_100, sample_110]) = Some (Inr (JInt 10))"
    unfolding feed_two by (simp add: time_delta_of_def py_sub_def)
  show ?thesis
    using previous_timestamp_smaller[OF p, of all_fit] td
    unfolding feed_two by (auto simp: num_cmp_def key_le_def)
qed

text \<open>
  C9, as stated, fails. When \<^verbatim>\<open>copy.deepcopy\<close> raises on the second sample (it is nested
  too deep), the counters and the timestamp of the first sample have been captured
  already, and the captured timestamp equals the timestamp seen. After the float
  \<open>2^53\<close> and then the \<^verbatim>\<open>int\<close> \<open>2^53 + 1\<close>, both accepted, the time delta is 0.0, and after
  1.0 and then NaN, both accepted, it is NaN: the zero-rate branch is taken.
\<close>

theorem previous_timestamp_counterexample:
  "results shallow (init 30) [sample_100, deep_sample] = [Inr True, Inl RecursionError] \<and>
   last_counter_ts (feed shallow (init 30) [sample_100, deep_sample]) = Some (JInt 100) \<and>
   last_seen_ts (feed shallow (init 30) [sample_100, deep_sample]) = Some (JInt 100) \<and>
   py_cmp LE (JInt 100) (JInt 100) = Inr True \<and>
   results all_fit (init 30) [float_sample, int_sample] = [Inr True, Inr True] \<and>
   time_delta_of (feed all_fit (init 30) [float_sample, int_sample]) = Some (Inr (JFloat (Finite 0))) \<and>
   py_cmp GT (JFloat (Finite 0)) (JInt 0) = Inr False \<and>
   derived_field all_fit (feed all_fit (init 30) [float_sample, int_sample]) ''disk'' ''read_sectors_rate''
     = Some (JFloat (Finite 0)) \<and>
   results all_fit (init 30) [one_sample, nan_sample] = [Inr True, Inr True] \<and>
   time_delta_of (feed all_fit (init 30) [one_sample, nan_sample]) = Some (Inr (JFloat NaN)) \<and>
   py_cmp GT (JFloat NaN) (JInt 0) = Inr False"
  by code_simp

section \<open>The newest element of an upstream array\<close>

lemma key_le_iff: "key_le p q \<longleftrightarrow> p \<le> q"
  by (cases p; cases q) (auto simp: key_le_def less_eq_prod_def)

lemma keyed_key: "keyed x \<Longrightarrow> order_key (sample_key x) = Some (ts_or_zero x)"
  by (auto simp: keyed_def sample_key_def ts_or_zero_def dict_get_def split: json.splits option.splits)

lemma order_key_number: "order_key v = Some p \<Longrightarrow> num_of v \<noteq> None"
  by (cases v) simp_all

lemma keyed_gt:
  assumes "keyed x" "keyed y"
  shows "py_cmp GT (sample_key x) (sample_key y) = Inr (ts_or_zero y < ts_or_zero x)"
proof -
  have kx: "order_key (sample_key x) = Some (ts_or_zero x)"
    and ky: "order_key (sample_key y) = Some (ts_or_zero y)"
    using assms by (simp_all add: keyed_key)
  have ny: "num_of (sample_key y) \<noteq> None"
    using ky by (rule order_key_number)
  have "num_cmp GT (sample_key x) (sample_key y) = (ts_or_zero y < ts_or_zero x)"
    by (simp add: num_cmp_def kx ky key_le_iff not_le)
  then show ?thesis
    using kx ny by (cases "sample_key x") auto
qed

lemma max_loop_first_max:
  "keyed best \<Longrightarrow> \<forall>x \<in> set xs. keyed x \<Longrightarrow>
     \<exists>m pre post. max_loop best xs = Inr m \<and> best # xs = pre @ m # post \<and>
        (\<forall>x \<in> set pre. ts_or_zero x < ts_or_zero m) \<and>
        (\<forall>x \<in> set post. ts_or_zero x \<le> ts_or_zero m)"
proof (induction xs arbitrary: best)
  case Nil
  show ?case
    by (rule exI[of _ best], rule exI[of _ "[]"], rule exI[of _ "[]"]) simp
next
  case (Cons x xs)
  have kx: "keyed x" and kxs: "\<forall>x \<in> set xs. keyed x"
    using Cons.prems(2) by simp_all
  show ?case
  proof (cases "ts_or_zero best < ts_or_zero x")
    case True
    then have step: "max_loop best (x # xs) = max_loop x xs"
      by (simp add: keyed_gt[OF kx Cons.prems(1)])
    from Cons.IH[OF kx kxs] obtain m pre post where
      m: "max_loop x xs = Inr m" and split: "x # xs = pre @ m # post" and
      lt: "\<forall>y \<in> set pre. ts_or_zero y < ts_or_zero m" and
      le: "\<forall>y \<in> set post. ts_or_zero y \<le> ts_or_zero m"
      by blast
    have "ts_or_zero x \<le> ts_or_zero m"
      using split lt by (cases pre) auto
    then have "\<forall>y \<in> set (best # pre). ts_or_zero y < ts_or_zero m"
      using True lt by auto
    moreover have "best # x # xs = (best # pre) @ m # post"
      using split by simp
    ultimately show ?thesis
      using m le unfolding step by blast
  next
    case False
    then have step: "max_loop best (x # xs) = max_loop best xs"
      by (simp add: keyed_gt[OF kx Cons.prems(1)])
    from Cons.IH[OF Cons.prems(1) kxs] obtain m pre post where
      m: "max_loop best xs = Inr m" and split: "best # xs = pre @ m # post" and
      lt: "\<forall>y \<in> set pre. ts_or_zero y < ts_or_zero m" and
      le: "\<forall>y \<in> set post. ts_or_zero y \<le> ts_or_zero m"
      by blast
    show ?thesis
    proof (cases pre)
      case Nil
      then have "best # x # xs = [] @ m # (x # post)" and "ts_or_zero x \<le> ts_or_zero m"
        using split False by auto
      then show ?thesis
        using m le unfolding step by (metis empty_iff list.set(1) set_ConsD)
    next
      case (Cons b pre')
      then have b: "b = best" and xs: "xs = pre' @ m # post"
        using split by simp_all
      have "ts_or_zero x < ts_or_zero m"
        using False lt Cons b by auto
      then have "\<forall>y \<in> set (best # x # pre'). ts_or_zero y < ts_or_zero m"
        using lt Cons b by auto
      moreover have "best # x # xs = (best # x # pre') @ m # post"
        using xs by simp
      ultimately show ?thesis
        using m le unfolding step by blast
    qed
  qed
qed

lemma spec_newest_split:
  assumes "xs = pre @ m # post"
    and "\<forall>x \<in> set pre. ts_or_zero x < ts_or_zero m"
    and "\<forall>x \<in> set post. ts_or_zero x \<le> ts_or_zero m"
  shows "spec_newest xs = m"
proof -
  have all: "\<forall>y \<in> set xs. ts_or_zero y \<le> ts_or_zero m"
    using assms by auto
  have "filter (\<lambda>x. \<forall>y \<in> set xs. ts_or_zero y \<le> ts_or_zero x) pre = []"
    using assms(1,2) by (auto simp: filter_empty_conv intro!: bexI[of _ m])
  then show ?thesis
    using all by (simp add: spec_newest_def key_le_iff assms(1))
qed

lemma py_max_spec:
  assumes "xs \<noteq> []" and "\<forall>x \<in> set xs. keyed x"
  shows "py_max xs = Inr (spec_newest xs) \<and> spec_newest xs \<in> set xs \<and>
         (\<forall>x \<in> set xs. ts_or_zero x \<le> ts_or_zero (spec_newest xs))"
proof -
  obtain b rest where xs: "xs = b # rest"
    using assms(1) by (cases xs) auto
  from max_loop_first_max[of b rest] assms(2) obtain m pre post where
    m: "max_loop b rest = Inr m" and split: "b # rest = pre @ m # post" and
    lt: "\<forall>y \<in> set pre. ts_or_zero y < ts_or_zero m" and
    le: "\<forall>y \<in> set post. ts_or_zero y \<le> ts_or_zero m"
    unfolding xs by auto
  have n: "spec_newest xs = m"
    using spec_newest_split[of xs pre m post] split lt le xs by simp
  have "m \<in> set xs" and "\<forall>x \<in> set xs. ts_or_zero x \<le> ts_or_zero m"
    using split lt le unfolding xs by auto
  then show ?thesis
    using m n by (simp add: py_max_def xs)
qed

lemma forward_dict:
  "forward fits s (JObj d) = (Forwarded d (call_result fits s d), after_update fits s d)"
  by (simp add: forward_def method_get_def after_update_def call_result_def)

text \<open>
  C6, as the code has it. For a non-empty array of dicts whose \<^verbatim>\<open>ts\<close>, where present, is
  a number other than NaN, the element passed to \<^verbatim>\<open>update\<close> is the first one whose
  timestamp is maximal over the array, wherever it stands, an element without \<^verbatim>\<open>ts\<close>
  counting as timestamp 0. An empty array ends the pass with no call of \<^verbatim>\<open>update\<close>.
\<close>

theorem poll_forwards_first_max:
  "(xs \<noteq> [] \<and> (\<forall>x \<in> set xs. keyed x) \<longrightarrow>
      (\<exists>d. spec_newest xs = JObj d \<and> JObj d \<in> set xs \<and>
          (\<forall>x \<in> set xs. key_le (ts_or_zero x) (ts_or_zero (JObj d))) \<and>
          poll_cycle fits s (JArr xs) = (Forwarded d (call_result fits s d), after_update fits s d))) \<and>
   poll_cycle fits s (JArr []) = (Empty_Array, s)"
proof (intro conjI impI)
  assume h: "xs \<noteq> [] \<and> (\<forall>x \<in> set xs. keyed x)"
  then have m: "py_max xs = Inr (spec_newest xs)" and mem: "spec_newest xs \<in> set xs"
    and mx: "\<forall>x \<in> set xs. ts_or_zero x \<le> ts_or_zero (spec_newest xs)"
    using py_max_spec[of xs] by simp_all
  have "keyed (spec_newest xs)"
    using h mem by blast
  then obtain d where d: "spec_newest xs = JObj d"
    by (cases "spec_newest xs") (simp_all add: keyed_def)
  have "poll_cycle fits s (JArr xs) = forward fits s (JObj d)"
    using h m d by (simp add: poll_cycle_def)
  then show "\<exists>d. spec_newest xs = JObj d \<and> JObj d \<in> set xs \<and>
          (\<forall>x \<in> set xs. key_le (ts_or_zero x) (ts_or_zero (JObj d))) \<and>
          poll_cycle fits s (JArr xs) = (Forwarded d (call_result fits s d), after_update fits s d)"
    using d mem mx by (auto simp: forward_dict key_le_iff)
next
  show "poll_cycle fits s (JArr []) = (Empty_Array, s)"
    by (simp add: poll_cycle_def)
qed

theorem poll_forwards_first_max_witness:
  "poll_cycle all_fit (init 30) (JArr [JObj [(''ts'', JInt 5)], JObj [(''ts'', JInt 9)], JObj [(''ts'', JInt 7)]])
     = (Forwarded [(''ts'', JInt 9)] (Inr True), after_update all_fit (init 30) [(''ts'', JInt 9)])"
proof -
  have u: "update all_fit (init 30) [(''ts'', JInt 9)] =
      (Inr True, init 30\<lparr> latest_sample := Some [(''ts'', JInt 9)], last_seen_ts := Some (JInt 9) \<rparr>)"
    by (simp add: update_def Let_def dict_get_def init_def capture_counters_def deepcopy_def all_fit_def)
  have n: "spec_newest [JObj [(''ts'', JInt 5)], JObj [(''ts'', JInt 9)], JObj [(''ts'', JInt 7)]] = JObj [(''ts'', JInt 9)]"
    by (simp add: spec_newest_def ts_or_zero_def key_le_def)
  show ?thesis
    using poll_forwards_first_max[of "[JObj [(''ts'', JInt 5)], JObj [(''ts'', JInt 9)], JObj [(''ts'', JInt 7)]]"
        all_fit "init 30"]
    by (auto simp: keyed_def n call_result_def u)
qed

text \<open>
  C6, as stated, fails: of the array \<^verbatim>\<open>[{"ts": -1}, {}]\<close> the poller passes \<^verbatim>\<open>{}\<close> to
  \<^verbatim>\<open>update\<close>, an element with no timestamp field, although the other element has one.
\<close>

theorem poll_forwards_max_timestamp_counterexample:
  "poll_cycle all_fit (init 30) (JArr [JObj [(''ts'', JInt (-1))], JObj []]) = (Forwarded [] (Inr False), init 30) \<and>
   \<not> dict_contains [] ''ts'' \<and> dict_contains [(''ts'', JInt (-1))] ''ts''"
  by (simp add: poll_cycle_def py_max_def sample_key_def dict_get_def forward_def method_get_def
      update_def dict_contains_def num_cmp_def key_le_def)

section \<open>The relay's cache\<close>

lemma parsed_lines_Nil: "parsed_lines loads strip [] = []"
  by (simp add: parsed_lines_def map_filter_simps)

lemma parsed_lines_Cons:
  "parsed_lines loads strip (line # rest) =
     (if strip line = [] then parsed_lines loads strip rest
      else case loads (strip line) of
             Value metric \<Rightarrow> metric # parsed_lines loads strip rest
           | _ \<Rightarrow> parsed_lines loads strip rest)"
  by (simp add: parsed_lines_def map_filter_simps split: parsed.splits)

lemma aborting_Cons:
  "aborting loads strip (line # rest) \<longleftrightarrow>
     (strip line \<noteq> [] \<and> (\<exists>e. loads (strip line) = Raises e)) \<or> aborting loads strip rest"
  by (auto simp: aborting_def split: parsed.splits)

lemma read_lines_parsed:
  "\<not> aborting loads strip lines \<Longrightarrow>
   read_lines loads strip lines (metrics, latest) =
     Inr (metrics @ parsed_lines loads strip lines,
          if parsed_lines loads strip lines = [] then latest else last (parsed_lines loads strip lines))"
proof (induction lines arbitrary: metrics latest)
  case Nil
  then show ?case by (simp add: parsed_lines_Nil)
next
  case (Cons line rest)
  then have r: "\<not> aborting loads strip rest"
    and l: "strip line = [] \<or> (\<forall>e. loads (strip line) \<noteq> Raises e)"
    by (auto simp: aborting_Cons)
  show ?case
    using l by (cases "loads (strip line)") (simp_all add: Let_def Cons.IH[OF r] parsed_lines_Cons)
qed

lemma read_lines_aborting:
  "aborting loads strip lines \<Longrightarrow> \<exists>e. read_lines loads strip lines acc = Inl e"
proof (induction lines arbitrary: acc)
  case Nil
  then show ?case by (simp add: aborting_def)
next
  case (Cons line rest)
  obtain metrics latest where acc: "acc = (metrics, latest)" by (cases acc)
  show ?case
  proof (cases "strip line \<noteq> [] \<and> (\<exists>e. loads (strip line) = Raises e)")
    case True
    then show ?thesis by (auto simp: acc Let_def)
  next
    case False
    then have "aborting loads strip rest"
      using Cons.prems unfolding aborting_Cons by blast
    then have "\<exists>e. read_lines loads strip rest acc' = Inl e" for acc'
      by (rule Cons.IH)
    then show ?thesis
      using False unfolding acc by (cases "loads (strip line)") (auto simp: Let_def)
  qed
qed

lemma parsed_example:
  "parsed_lines loads_example id [''5'', ''{\"ts\": 7}'', ''{\"ts\": 8'', []] = [JInt 5, JObj [(''ts'', JInt 7)]]"
  by (simp add: parsed_lines_Cons parsed_lines_Nil loads_example_def)

text \<open>
  C7, as the code has it. After \<^verbatim>\<open>load_metrics\<close> the cached latest metric is the value of
  the last line of the file that parses, the lines on which \<^verbatim>\<open>json.loads\<close> raises
  JSONDecodeError being passed over, and the cache is empty when the file does not
  exist. When \<^verbatim>\<open>json.loads\<close> raises another exception on a line, or the file cannot be
  read, the refresh is abandoned and the caches stay as they were. \<^verbatim>\<open>GET /latest\<close> and
  \<^verbatim>\<open>/latest.json\<close> answer 200 with the cached value as JSON body when that value is a
  dict, which includes the empty dict cached when no line parsed.
\<close>

theorem relay_latest:
  "(\<not> aborting loads strip lines \<longrightarrow>
      latest_metric_cache (load_metrics loads strip (Lines lines) now c) = spec_latest loads strip lines \<and>
      metrics_cache (load_metrics loads strip (Lines lines) now c) = parsed_lines loads strip lines) \<and>
   (aborting loads strip lines \<longrightarrow> load_metrics loads strip (Lines lines) now c = c) \<and>
   load_metrics loads strip (Unreadable e) now c = c \<and>
   latest_metric_cache (load_metrics loads strip Missing now c) = JObj [] \<and>
   metrics_cache (load_metrics loads strip Missing now c) = [] \<and>
   (latest_metric_cache c = JObj d \<longrightarrow> serve_latest_metric of_pairs c = Json_Response 200 (JObj d)) \<and>
   serve_latest_metric of_pairs relay_init = Json_Response 200 (JObj []) \<and>
   route_of ''/latest'' = Latest \<and> route_of ''/latest.json'' = Latest"
proof (intro conjI impI)
  assume "\<not> aborting loads strip lines"
  then show "latest_metric_cache (load_metrics loads strip (Lines lines) now c) = spec_latest loads strip lines"
    "metrics_cache (load_metrics loads strip (Lines lines) now c) = parsed_lines loads strip lines"
    by (simp_all add: load_metrics_def spec_latest_def read_lines_parsed)
next
  assume "aborting loads strip lines"
  then obtain e' where "read_lines loads strip lines ([], JObj []) = Inl e'"
    using read_lines_aborting by blast
  then show "load_metrics loads strip (Lines lines) now c = c"
    by (simp add: load_metrics_def)
next
  show "load_metrics loads strip (Unreadable e) now c = c"
    by (simp add: load_metrics_def)
  show "latest_metric_cache (load_metrics loads strip Missing now c) = JObj []"
    "metrics_cache (load_metrics loads strip Missing now c) = []"
    by (simp_all add: load_metrics_def)
  show "serve_latest_metric of_pairs c = Json_Response 200 (JObj d)" if "latest_metric_cache c = JObj d"
    using that by (simp add: serve_latest_metric_def py_dict_def)
  show "serve_latest_metric of_pairs relay_init = Json_Response 200 (JObj [])"
    by (simp add: serve_latest_metric_def py_dict_def relay_init_def)
  show "route_of ''/latest'' = Latest" "route_of ''/latest.json'' = Latest"
    by (simp_all add: route_of_def)
qed

theorem relay_latest_witness:
  "latest_metric_cache
     (load_metrics loads_example id (Lines [''5'', ''{\"ts\": 7}'', ''{\"ts\": 8'', []]) (Finite 0) relay_init)
     = JObj [(''ts'', JInt 7)] \<and>
   serve_latest_metric no_pairs
     (load_metrics loads_example id (Lines [''5'', ''{\"ts\": 7}'', ''{\"ts\": 8'', []]) (Finite 0) relay_init)
     = Json_Response 200 (JObj [(''ts'', JInt 7)]) \<and>
   load_metrics loads_example id (Lines [''{\"ts\": 8}'', replicate 4301 CHR ''1'']) (Finite 0) relay_init
     = relay_init"
proof -
  let ?lines = "[''5'', ''{\"ts\": 7}'', ''{\"ts\": 8'', []]"
  let ?c = "load_metrics loads_example id (Lines ?lines) (Finite 0) relay_init"
  have a: "\<not> aborting loads_example id ?lines"
    by (simp add: aborting_def loads_example_def)
  have b: "aborting loads_example id [''{\"ts\": 8}'', replicate 4301 CHR ''1'']"
    by (simp add: aborting_def loads_example_def)
  note first = relay_latest[where loads = loads_example and strip = id and now = "Finite 0"
      and c = relay_init and lines = ?lines, THEN conjunct1, THEN mp, OF a]
  then have l: "latest_metric_cache ?c = JObj [(''ts'', JInt 7)]"
    by (simp add: spec_latest_def parsed_example)
  note served = relay_latest[where c = ?c and d = "[(''ts'', JInt 7)]" and of_pairs = no_pairs,
      THEN conjunct2, THEN conjunct2, THEN conjunct2, THEN conjunct2, THEN conjunct2,
      THEN conjunct1, THEN mp, OF l]
  note kept = relay_latest[where loads = loads_example and strip = id and now = "Finite 0"
      and c = relay_init and lines = "[''{\"ts\": 8}'', replicate 4301 CHR ''1'']",
      THEN conjunct2, THEN conjunct1, THEN mp, OF b]
  show ?thesis
    using l served kept by simp
qed

text \<open>
  C7, as stated, fails. When the last line that parses holds the number 5, that number
  is cached, and \<^verbatim>\<open>GET /latest\<close> answers 500, since \<^verbatim>\<open>dict(5)\<close> raises TypeError. And when
  \<^verbatim>\<open>json.loads\<close> raises ValueError on a line of 4301 digits, the refresh is abandoned:
  the cache keeps the value of an earlier refresh, not that of the last line that
  parses.
\<close>

theorem latest_not_served_counterexample:
  "latest_metric_cache (load_metrics loads_example id (Lines [''{\"ts\": 7}'', ''5'']) (Finite 0) relay_init) = JInt 5 \<and>
   serve_latest_metric no_pairs (load_metrics loads_example id (Lines [''{\"ts\": 7}'', ''5'']) (Finite 0) relay_init)
     = Error_Response 500 \<and>
   latest_metric_cache
     (load_metrics loads_example id (Lines [''{\"ts\": 8}'', replicate 4301 CHR ''1'']) (Finite 1)
        (load_metrics loads_example id (Lines [''{\"ts\": 7}'']) (Finite 0) relay_init))
     = JObj [(''ts'', JInt 7)] \<and>
   spec_latest loads_example id [''{\"ts\": 8}'', replicate 4301 CHR ''1''] = JObj [(''ts'', JInt 8)]"
  by (simp add: load_metrics_def loads_example_def serve_latest_metric_def py_dict_def
      spec_latest_def parsed_lines_Cons parsed_lines_Nil)

end
